theory Spec2Isabelle
  imports Complex_Main "HOL-Library.Word" "HOL-Library.Log_Nat"
begin

section \<open>Floating-point numbers\<close>

text \<open>
  The pipeline of \<^verbatim>\<open>backend/utils/image_processing.py\<close> computes on numpy
  \<^verbatim>\<open>float32\<close> arrays and on Python floats (binary64). Every operation that IEEE 754
  rounds correctly (addition, subtraction, multiplication, division, conversion) is the
  exact operation followed by rounding to the nearest number with a \<open>p\<close>-bit
  significand, ties to even.

  A \<^verbatim>\<open>float32\<close> array element is a value of \<open>f32v\<close>: a finite number, an infinity or
  NaN. Rounding into \<^verbatim>\<open>float32\<close> (\<open>to_f32\<close>) has the format's exponent range:
  below \<open>2 powi (-126)\<close> the spacing stays \<open>2 powi (-149)\<close> (subnormal numbers, down
  to zero), and a result of magnitude \<open>2 ^ 128\<close> or more is an infinity. The two zeros
  are one value: no operation of the pipeline tells them apart.

  A Python scalar is the real number it denotes, rounded by \<open>f64\<close> without exponent
  bounds. The scalars of the pipeline are used in comparisons, which the bounds do not
  change for finite inputs, or are converted to \<^verbatim>\<open>float32\<close>, where a binary64
  overflow is an overflow and a binary64 underflow is zero as well. The one overflow
  Python reports as an error is kept (\<open>py_pow2\<close> below). \<open>np.power\<close> and Python's
  \<open>**\<close> are taken as correctly rounded.
\<close>

definition round_half_even :: "real \<Rightarrow> int" where
  "round_half_even x =
     (let f = \<lfloor>x\<rfloor>; d = x - of_int f in
      if d < 1 / 2 then f else if 1 / 2 < d then f + 1 else if even f then f else f + 1)"

text \<open>The exponent \<open>e\<close> with \<open>2 powi e \<le> \<bar>x\<bar> < 2 powi (e + 1)\<close>, computed on integers.\<close>

definition binade :: "real \<Rightarrow> int" where
  "binade x =
     (let a = \<bar>x\<bar> in
      if 1 \<le> a then bitlen \<lfloor>a\<rfloor> - 1 else - bitlen (\<lceil>1 / a\<rceil> - 1))"

definition fl :: "nat \<Rightarrow> real \<Rightarrow> real" where
  "fl p x =
     (if x = 0 then 0
      else let u = 2 powi (binade x - (int p - 1))
           in of_int (round_half_even (x / u)) * u)"

text \<open>Rounding to 24 bits without exponent bounds; \<open>f32r\<close> agrees with it from
  \<open>2 powi (-126)\<close> on.\<close>

definition f32 :: "real \<Rightarrow> real" where
  "f32 = fl 24"

text \<open>Rounding to \<^verbatim>\<open>float32\<close> with subnormal numbers, before the overflow test.\<close>

definition f32r :: "real \<Rightarrow> real" where
  "f32r x =
     (if x = 0 then 0
      else let u = 2 powi (max (binade x) (- 126) - 23)
           in of_int (round_half_even (x / u)) * u)"

datatype f32v = Fin real | PosInf | NegInf | NaN

definition to_f32 :: "real \<Rightarrow> f32v" where
  "to_f32 x =
     (let r = f32r x in
      if 2 ^ 128 \<le> \<bar>r\<bar> then (if 0 < x then PosInf else NegInf) else Fin r)"

definition f64 :: "real \<Rightarrow> real" where
  "f64 = fl 53"

section \<open>Images and numpy operations\<close>

text \<open>
  \<open>cv2.imread(path, cv2.IMREAD_COLOR)\<close> yields a \<open>height \<times> width \<times> 3\<close> array of
  \<^verbatim>\<open>uint8\<close> in blue, green, red order: index 0 is blue, 1 is green, 2 is red.
\<close>

type_synonym pixel = "8 word \<times> 8 word \<times> 8 word"
type_synonym image = "pixel list list"
type_synonym fpixel = "f32v \<times> f32v \<times> f32v"
type_synonym fimage = "fpixel list list"

definition map_px :: "('a \<Rightarrow> 'b) \<Rightarrow> 'a \<times> 'a \<times> 'a \<Rightarrow> 'b \<times> 'b \<times> 'b" where
  "map_px f p = (case p of (c0, c1, c2) \<Rightarrow> (f c0, f c1, f c2))"

definition map_img :: "('a \<Rightarrow> 'b) \<Rightarrow> ('a \<times> 'a \<times> 'a) list list \<Rightarrow> ('b \<times> 'b \<times> 'b) list list" where
  "map_img f img = map (map (map_px f)) img"

text \<open>Channel values of an image, for statements about every channel of every pixel.\<close>

definition channels :: "('a \<times> 'a \<times> 'a) list list \<Rightarrow> 'a set" where
  "channels img = {c. \<exists>row c0 c1 c2. row \<in> set img \<and> (c0, c1, c2) \<in> set row \<and> (c = c0 \<or> c = c1 \<or> c = c2)}"

text \<open>\<open>arr.astype(np.float32)\<close> on \<^verbatim>\<open>uint8\<close> is exact. \<open>arr.astype(np.uint8)\<close> on
  \<^verbatim>\<open>float32\<close> truncates toward zero and keeps the low eight bits. C leaves the
  conversion of NaN and of the infinities open; x86-64 and ARM give 0 for NaN. The
  infinities get 0 here as on x86-64; they do not reach a conversion in this pipeline,
  where every stage that can produce one clips its result.\<close>

definition astype_f32 :: "8 word \<Rightarrow> f32v" where
  "astype_f32 c = Fin (real (unat c))"

definition trunc_int :: "real \<Rightarrow> int" where
  "trunc_int v = (if 0 \<le> v then \<lfloor>v\<rfloor> else \<lceil>v\<rceil>)"

definition astype_u8 :: "f32v \<Rightarrow> 8 word" where
  "astype_u8 v = (case v of Fin x \<Rightarrow> word_of_int (trunc_int x) | _ \<Rightarrow> 0)"

text \<open>IEEE 754 addition, multiplication and division on \<^verbatim>\<open>float32\<close>.\<close>

definition f32_add :: "f32v \<Rightarrow> f32v \<Rightarrow> f32v" where
  "f32_add a b =
     (case (a, b) of
        (NaN, _) \<Rightarrow> NaN
      | (_, NaN) \<Rightarrow> NaN
      | (Fin x, Fin y) \<Rightarrow> to_f32 (x + y)
      | (PosInf, NegInf) \<Rightarrow> NaN
      | (NegInf, PosInf) \<Rightarrow> NaN
      | (PosInf, _) \<Rightarrow> PosInf
      | (NegInf, _) \<Rightarrow> NegInf
      | (_, PosInf) \<Rightarrow> PosInf
      | (_, NegInf) \<Rightarrow> NegInf)"

text \<open>The infinity of the sign of a product or quotient.\<close>

definition signed_inf :: "bool \<Rightarrow> f32v" where
  "signed_inf negative = (if negative then NegInf else PosInf)"

definition f32_mul :: "f32v \<Rightarrow> f32v \<Rightarrow> f32v" where
  "f32_mul a b =
     (case (a, b) of
        (NaN, _) \<Rightarrow> NaN
      | (_, NaN) \<Rightarrow> NaN
      | (Fin x, Fin y) \<Rightarrow> to_f32 (x * y)
      | (Fin x, PosInf) \<Rightarrow> (if x = 0 then NaN else signed_inf (x < 0))
      | (Fin x, NegInf) \<Rightarrow> (if x = 0 then NaN else signed_inf (0 < x))
      | (PosInf, Fin y) \<Rightarrow> (if y = 0 then NaN else signed_inf (y < 0))
      | (NegInf, Fin y) \<Rightarrow> (if y = 0 then NaN else signed_inf (0 < y))
      | (PosInf, PosInf) \<Rightarrow> PosInf
      | (NegInf, NegInf) \<Rightarrow> PosInf
      | (PosInf, NegInf) \<Rightarrow> NegInf
      | (NegInf, PosInf) \<Rightarrow> NegInf)"

definition f32_div :: "f32v \<Rightarrow> f32v \<Rightarrow> f32v" where
  "f32_div a b =
     (case (a, b) of
        (NaN, _) \<Rightarrow> NaN
      | (_, NaN) \<Rightarrow> NaN
      | (Fin x, Fin y) \<Rightarrow>
          (if y = 0 then (if x = 0 then NaN else signed_inf (x < 0)) else to_f32 (x / y))
      | (Fin x, _) \<Rightarrow> Fin 0
      | (PosInf, Fin y) \<Rightarrow> signed_inf (y < 0)
      | (NegInf, Fin y) \<Rightarrow> signed_inf (0 \<le> y)
      | (_, _) \<Rightarrow> NaN)"

text \<open>A \<^verbatim>\<open>float32\<close> array combined with a Python scalar (numpy 2): the scalar is
  converted to \<^verbatim>\<open>float32\<close>, to an infinity when it is too large, and the operation is
  done in \<^verbatim>\<open>float32\<close>.\<close>

definition np_add :: "f32v \<Rightarrow> real \<Rightarrow> f32v" where
  "np_add v s = f32_add v (to_f32 s)"

definition np_mul :: "f32v \<Rightarrow> real \<Rightarrow> f32v" where
  "np_mul v s = f32_mul v (to_f32 s)"

definition np_div :: "f32v \<Rightarrow> real \<Rightarrow> f32v" where
  "np_div v s = f32_div v (to_f32 s)"

text \<open>\<open>np.clip(v, lo, hi)\<close> is \<open>np.minimum(np.maximum(v, lo), hi)\<close>, which hands NaN on.
  The bounds are the literals 0, 1 and 255.\<close>

definition np_clip :: "f32v \<Rightarrow> real \<Rightarrow> real \<Rightarrow> f32v" where
  "np_clip v lo hi =
     (case v of
        NaN \<Rightarrow> NaN
      | PosInf \<Rightarrow> Fin hi
      | NegInf \<Rightarrow> Fin (min lo hi)
      | Fin x \<Rightarrow> Fin (min (max x lo) hi))"

text \<open>\<open>np.power(v, g)\<close> with the special cases of C's \<open>pow\<close>: a zero exponent gives 1
  for every base, NaN included, and base 1 gives 1 for every exponent.\<close>

definition is_int :: "real \<Rightarrow> bool" where
  "is_int y = (y = of_int \<lfloor>y\<rfloor>)"

definition is_odd_int :: "real \<Rightarrow> bool" where
  "is_odd_int y = (is_int y \<and> odd \<lfloor>y\<rfloor>)"

definition f32_pow :: "f32v \<Rightarrow> f32v \<Rightarrow> f32v" where
  "f32_pow v g =
     (if g = Fin 0 then Fin 1
      else if v = Fin 1 then Fin 1
      else case (v, g) of
        (NaN, _) \<Rightarrow> NaN
      | (_, NaN) \<Rightarrow> NaN
      | (Fin x, Fin y) \<Rightarrow>
          (if 0 < x then to_f32 (x powr y)
           else if x = 0 then (if 0 < y then Fin 0 else PosInf)
           else if is_odd_int y then to_f32 (- (\<bar>x\<bar> powr y))
           else if is_int y then to_f32 (\<bar>x\<bar> powr y)
           else NaN)
      | (Fin x, PosInf) \<Rightarrow> (if \<bar>x\<bar> < 1 then Fin 0 else if \<bar>x\<bar> = 1 then Fin 1 else PosInf)
      | (Fin x, NegInf) \<Rightarrow> (if \<bar>x\<bar> < 1 then PosInf else if \<bar>x\<bar> = 1 then Fin 1 else Fin 0)
      | (PosInf, Fin y) \<Rightarrow> (if 0 < y then PosInf else Fin 0)
      | (PosInf, PosInf) \<Rightarrow> PosInf
      | (PosInf, NegInf) \<Rightarrow> Fin 0
      | (NegInf, Fin y) \<Rightarrow>
          (if 0 < y then (if is_odd_int y then NegInf else PosInf) else Fin 0)
      | (NegInf, PosInf) \<Rightarrow> PosInf
      | (NegInf, NegInf) \<Rightarrow> Fin 0)"

definition np_power :: "f32v \<Rightarrow> real \<Rightarrow> f32v" where
  "np_power v g = f32_pow v (to_f32 g)"

text \<open>\<open>a % b\<close> on \<^verbatim>\<open>float32\<close>: C's \<open>fmod\<close> (exact, sign of \<open>a\<close>), moved by \<open>b\<close>
  when its sign differs from that of \<open>b\<close>. \<open>fmod\<close> of an infinity, or by zero, is NaN.\<close>

definition fmod :: "real \<Rightarrow> real \<Rightarrow> real" where
  "fmod a b = a - b * of_int (trunc_int (a / b))"

definition f32_mod :: "f32v \<Rightarrow> f32v \<Rightarrow> f32v" where
  "f32_mod a b =
     (case (a, b) of
        (NaN, _) \<Rightarrow> NaN
      | (_, NaN) \<Rightarrow> NaN
      | (PosInf, _) \<Rightarrow> NaN
      | (NegInf, _) \<Rightarrow> NaN
      | (Fin x, PosInf) \<Rightarrow> (if x < 0 then PosInf else Fin x)
      | (Fin x, NegInf) \<Rightarrow> (if 0 < x then NegInf else Fin x)
      | (Fin x, Fin y) \<Rightarrow>
          (if y = 0 then NaN
           else let m = fmod x y in
             if m \<noteq> 0 then (if (y < 0) \<noteq> (m < 0) then to_f32 (m + y) else Fin m)
             else Fin 0))"

definition np_mod :: "f32v \<Rightarrow> real \<Rightarrow> f32v" where
  "np_mod a s = f32_mod a (to_f32 s)"

text \<open>\<open>np.mean\<close> of a \<^verbatim>\<open>uint8\<close> plane: the exact sum, divided in binary64. It is used on
  planes of a decoded image, which are not empty.\<close>

definition np_mean :: "8 word list list \<Rightarrow> real" where
  "np_mean plane = f64 (real (sum_list (map unat (concat plane))) / real (length (concat plane)))"

section \<open>Python scalars and errors\<close>

datatype py_error = OverflowError | ZeroDivisionError

text \<open>\<open>2 ** exposure\<close> on a float: Python raises \<open>OverflowError\<close> when the result
  leaves the binary64 range, which is from \<open>exposure = 1024\<close> on.\<close>

definition py_pow2 :: "real \<Rightarrow> py_error + real" where
  "py_pow2 e = (if 1024 \<le> e then Inl OverflowError else Inr (f64 (2 powr e)))"

definition py_div :: "real \<Rightarrow> real \<Rightarrow> py_error + real" where
  "py_div a b = (if b = 0 then Inl ZeroDivisionError else Inr (f64 (a / b)))"

text \<open>Truth value of \<open>accessibility_filter\<close> in \<open>if accessibility_filter:\<close>.\<close>

definition truthy :: "string option \<Rightarrow> bool" where
  "truthy f = (case f of None \<Rightarrow> False | Some s \<Rightarrow> s \<noteq> [])"

section \<open>The OpenCV and numpy routines the pipeline calls\<close>

text \<open>
  Colour conversions work pixel by pixel. CLAHE, the Laplacian variance, the histogram
  statistic and \<open>np.std\<close> work on a whole grey plane; they are parameters of the
  development, as the library is not part of the repository.
\<close>

record cvlib =
  cvt_bgr2gray :: "pixel \<Rightarrow> 8 word"
  cvt_bgr2hsv :: "pixel \<Rightarrow> pixel"
  cvt_hsv2bgr :: "pixel \<Rightarrow> pixel"
  cvt_bgr2lab :: "pixel \<Rightarrow> pixel"
  cvt_lab2bgr :: "pixel \<Rightarrow> pixel"
  clahe_apply :: "8 word list list \<Rightarrow> 8 word list list"
  laplacian_var :: "8 word list list \<Rightarrow> real"
  hist_std_over_mean :: "8 word list list \<Rightarrow> real"
  np_std :: "8 word list list \<Rightarrow> real"

section \<open>calculate_perceptual_metrics\<close>

record metrics =
  sharpness :: real
  brightness_balance :: real
  contrast_metric :: real
  saturation_metric :: real

definition calculate_perceptual_metrics :: "cvlib \<Rightarrow> image \<Rightarrow> metrics" where
  "calculate_perceptual_metrics L img =
     (let gray = map (map (cvt_bgr2gray L)) img;
          hsv = map (map (cvt_bgr2hsv L)) img
      in \<lparr> sharpness = laplacian_var L gray,
           brightness_balance = hist_std_over_mean L gray,
           contrast_metric = np_std L gray,
           saturation_metric = np_mean (map (map (\<lambda>(h, s, v). s)) hsv) \<rparr>)"

section \<open>generate_explainable_summary\<close>

fun digits :: "nat \<Rightarrow> string" where
  "digits n =
     (if n < 10 then [''0123456789'' ! n]
      else digits (n div 10) @ [''0123456789'' ! (n mod 10)])"

text \<open>\<open>f"{x:.1f}"\<close> and \<open>f"{x:.0f}"\<close>: the decimal expansion with \<open>d\<close> digits after the
  point, the exact value rounded half to even.\<close>

definition fmt_fixed :: "nat \<Rightarrow> real \<Rightarrow> string" where
  "fmt_fixed d x =
     (let n = nat (round_half_even (\<bar>x\<bar> * 10 ^ d));
          frac = digits (n mod 10 ^ d)
      in (if x < 0 then ''-'' else []) @ digits (n div 10 ^ d) @
         (if d = 0 then [] else ''.'' @ replicate (d - length frac) (CHR ''0'') @ frac))"

text \<open>The separator \<open>" \<bullet> "\<close>: a space, the three bytes of U+2022 in UTF-8, a space.\<close>

definition bullet_sep :: string where
  "bullet_sep = [CHR '' '', CHR 0xE2, CHR 0x80, CHR 0xA2, CHR '' '']"

fun join :: "string \<Rightarrow> string list \<Rightarrow> string" where
  "join sep [] = []"
| "join sep [x] = x"
| "join sep (x # y # ys) = x @ sep @ join sep (y # ys)"

text \<open>\<open>adjustments.get(key, 0)\<close>.\<close>

definition dict_get :: "(string \<rightharpoonup> real) \<Rightarrow> string \<Rightarrow> real" where
  "dict_get d k = (case d k of None \<Rightarrow> 0 | Some v \<Rightarrow> v)"

definition sharpness_change :: "metrics \<Rightarrow> metrics \<Rightarrow> real" where
  "sharpness_change om pm = f64 (sharpness pm - sharpness om)"

definition contrast_change :: "metrics \<Rightarrow> metrics \<Rightarrow> real" where
  "contrast_change om pm = f64 (contrast_metric pm - contrast_metric om)"

definition saturation_change :: "metrics \<Rightarrow> metrics \<Rightarrow> real" where
  "saturation_change om pm = f64 (saturation_metric pm - saturation_metric om)"

definition fallback_clause :: string where
  "fallback_clause = ''Applied subtle enhancements to improve overall image quality''"

text \<open>The list \<open>explanations\<close> after the six \<open>if\<close> blocks, each appending at most one
  clause, in the order of the source.\<close>

definition explanations :: "metrics \<Rightarrow> metrics \<Rightarrow> (string \<rightharpoonup> real) \<Rightarrow> string list" where
  "explanations om pm adj =
     (let e0 = [];
          e1 = (if \<bar>sharpness_change om pm\<bar> > 50
                then (if sharpness_change om pm > 0
                      then e0 @ [''Enhanced image sharpness for clearer details'']
                      else e0 @ [''Softened image sharpness for smoother appearance''])
                else e0);
          e2 = (if \<bar>contrast_change om pm\<bar> > 10
                then (if contrast_change om pm > 0
                      then e1 @ [''Increased contrast to make features more distinct'']
                      else e1 @ [''Reduced contrast for a more balanced look''])
                else e1);
          e3 = (if \<bar>saturation_change om pm\<bar> > 20
                then (if saturation_change om pm > 0
                      then e2 @ [''Boosted color saturation for more vibrant colors'']
                      else e2 @ [''Desaturated colors for a more muted, elegant tone''])
                else e2);
          e4 = (if dict_get adj ''brightness'' \<noteq> 0
                then (let brightness_val = dict_get adj ''brightness'' in
                      if brightness_val > 0
                      then e3 @ [''Brightened the image by '' @ fmt_fixed 1 brightness_val @ '' levels'']
                      else e3 @ [''Darkened the image by '' @ fmt_fixed 1 \<bar>brightness_val\<bar> @ '' levels''])
                else e3);
          e5 = (if dict_get adj ''hue'' \<noteq> 0
                then e4 @ [''Shifted color hue by '' @ fmt_fixed 0 (dict_get adj ''hue'') @ '' degrees'']
                else e4);
          e6 = (if dict_get adj ''exposure'' \<noteq> 0
                then (let exposure_val = dict_get adj ''exposure'' in
                      if exposure_val > 0
                      then e5 @ [''Increased exposure by '' @ fmt_fixed 1 exposure_val @ '' stops'']
                      else e5 @ [''Decreased exposure by '' @ fmt_fixed 1 \<bar>exposure_val\<bar> @ '' stops''])
                else e5)
      in e6)"

definition generate_explainable_summary ::
  "metrics \<Rightarrow> metrics \<Rightarrow> (string \<rightharpoonup> real) \<Rightarrow> string" where
  "generate_explainable_summary om pm adj =
     (let e = explanations om pm adj;
          e' = (if e = [] then e @ [fallback_clause] else e)
      in join bullet_sep e')"

section \<open>apply_accessibility_filters\<close>

definition to_float :: "image \<Rightarrow> fimage" where
  "to_float img = map_img (\<lambda>c. np_div (astype_f32 c) 255) img"

definition to_uint8 :: "fimage \<Rightarrow> image" where
  "to_uint8 img_float = map_img (\<lambda>v. astype_u8 (np_mul v 255)) img_float"

text \<open>\<open>cv2.split\<close> and \<open>cv2.merge\<close> on three planes of one shape.\<close>

definition merge_planes :: "'a list list \<Rightarrow> 'a list list \<Rightarrow> 'a list list \<Rightarrow> ('a \<times> 'a \<times> 'a) list list" where
  "merge_planes p0 p1 p2 = map (\<lambda>(r0, r1, r2). zip r0 (zip r1 r2)) (zip p0 (zip p1 p2))"

definition high_contrast :: "cvlib \<Rightarrow> image \<Rightarrow> image" where
  "high_contrast L img =
     (let lab = map (map (cvt_bgr2lab L)) img;
          l = map (map (\<lambda>(c0, c1, c2). c0)) lab;
          a = map (map (\<lambda>(c0, c1, c2). c1)) lab;
          b = map (map (\<lambda>(c0, c1, c2). c2)) lab;
          l' = clahe_apply L l;
          lab' = merge_planes l' a b
      in map (map (cvt_lab2bgr L)) lab')"

definition apply_accessibility_filters :: "cvlib \<Rightarrow> image \<Rightarrow> string option \<Rightarrow> image" where
  "apply_accessibility_filters L img filter_type =
     (if filter_type = Some ''high_contrast'' then high_contrast L img
      else if filter_type = Some ''colorblind_protanopia'' then
        to_uint8 (map (map (\<lambda>(c0, c1, c2). (c0, c1, np_mul c1 (1 / 2)))) (to_float img))
      else if filter_type = Some ''colorblind_deuteranopia'' then
        to_uint8 (map (map (\<lambda>(c0, c1, c2). (c0, np_mul c2 (1 / 2), c2))) (to_float img))
      else if filter_type = Some ''colorblind_tritanopia'' then
        to_uint8 (map (map (\<lambda>(c0, c1, c2). (np_mul c1 (1 / 2), c1, c2))) (to_float img))
      else img)"

section \<open>process_image\<close>

record config =
  brightness :: real
  contrast :: real
  saturation :: real
  hue :: real
  exposure :: real
  accessibility_filter :: "string option"
  auto_enhance :: bool

text \<open>What a call leaves behind: the string it returns and the image handed to
  \<open>cv2.imwrite\<close>, if any.\<close>

record outcome =
  returned :: string
  written :: "image option"

text \<open>Lines 150 to 165: brightness, contrast and saturation after auto-enhancement.\<close>

definition auto_adjust :: "cvlib \<Rightarrow> image \<Rightarrow> metrics \<Rightarrow> config \<Rightarrow> real \<times> real \<times> real" where
  "auto_adjust L img original_metrics cfg =
     (if auto_enhance cfg then
        (let gray = map (map (cvt_bgr2gray L)) img;
             mean_brightness = np_mean gray;
             b = (if mean_brightness < 80 then f64 (brightness cfg + f64 (2 / 10))
                  else if mean_brightness > 180 then f64 (brightness cfg - f64 (2 / 10))
                  else brightness cfg);
             c = (if contrast_metric original_metrics < 30
                  then max (contrast cfg) (f64 (12 / 10)) else contrast cfg);
             s = (if saturation_metric original_metrics < 100
                  then max (saturation cfg) (f64 (11 / 10)) else saturation cfg)
         in (b, c, s))
      else (brightness cfg, contrast cfg, saturation cfg))"

text \<open>Lines 167 to 182, one definition for each \<open>if\<close> block.\<close>

definition brightness_stage :: "real \<Rightarrow> fimage \<Rightarrow> fimage" where
  "brightness_stage b img_float =
     (if b \<noteq> 0 then map_img (\<lambda>v. np_clip (np_add v b) 0 1) img_float else img_float)"

definition contrast_stage :: "real \<Rightarrow> fimage \<Rightarrow> fimage" where
  "contrast_stage c img_float =
     (if c \<noteq> 1 then map_img (\<lambda>v. np_clip (np_mul v c) 0 1) img_float else img_float)"

definition exposure_stage :: "real \<Rightarrow> fimage \<Rightarrow> py_error + fimage" where
  "exposure_stage e img_float =
     (if e \<noteq> 0 then
        (case py_pow2 e of
           Inl err \<Rightarrow> Inl err
         | Inr factor \<Rightarrow> Inr (map_img (\<lambda>v. np_clip (np_mul v factor) 0 1) img_float))
      else Inr img_float)"

definition gamma_of :: "real \<Rightarrow> py_error + real" where
  "gamma_of c = (if c > 0 then py_div 1 c else Inr 1)"

definition gamma_stage :: "real \<Rightarrow> fimage \<Rightarrow> py_error + fimage" where
  "gamma_stage c img_float =
     (if c \<noteq> 1 then
        (case gamma_of c of
           Inl err \<Rightarrow> Inl err
         | Inr gamma \<Rightarrow> Inr (map_img (\<lambda>v. np_power v gamma) img_float))
      else Inr img_float)"

definition tonal_adjust :: "real \<Rightarrow> real \<Rightarrow> real \<Rightarrow> fimage \<Rightarrow> py_error + fimage" where
  "tonal_adjust b c e img_float =
     (case exposure_stage e (contrast_stage c (brightness_stage b img_float)) of
        Inl err \<Rightarrow> Inl err
      | Inr img_float' \<Rightarrow> gamma_stage c img_float')"

text \<open>Lines 188 to 200.\<close>

definition saturation_hue_stage :: "cvlib \<Rightarrow> real \<Rightarrow> real \<Rightarrow> image \<Rightarrow> image" where
  "saturation_hue_stage L s h img_processed =
     (if s \<noteq> 1 \<or> h \<noteq> 0 then
        (let hsv = map_img astype_f32 (map (map (cvt_bgr2hsv L)) img_processed);
             hsv1 = map (map (\<lambda>(c0, c1, c2). (c0, np_clip (np_mul c1 s) 0 255, c2))) hsv;
             hsv2 = (if h \<noteq> 0
                     then map (map (\<lambda>(c0, c1, c2). (np_mod (np_add c0 h) 180, c1, c2))) hsv1
                     else hsv1)
         in map (map (cvt_hsv2bgr L)) (map_img astype_u8 hsv2))
      else img_processed)"

definition filter_name :: "string \<Rightarrow> string" where
  "filter_name f =
     (if f = ''high_contrast'' then ''High Contrast''
      else if f = ''colorblind_protanopia'' then ''Protanopia Simulation''
      else if f = ''colorblind_deuteranopia'' then ''Deuteranopia Simulation''
      else if f = ''colorblind_tritanopia'' then ''Tritanopia Simulation''
      else f)"

text \<open>The argument \<open>input\<close> is what \<open>cv2.imread\<close> returned: \<open>None\<close> when the file
  could not be decoded.\<close>

definition process_image :: "cvlib \<Rightarrow> image option \<Rightarrow> config \<Rightarrow> py_error + outcome" where
  "process_image L input cfg =
     (case input of
        None \<Rightarrow> Inr \<lparr> returned = ''Error: Could not load image'', written = None \<rparr>
      | Some img \<Rightarrow>
         (let original_metrics = calculate_perceptual_metrics L img;
              img_float = to_float img
          in case auto_adjust L img original_metrics cfg of (b, c, s) \<Rightarrow>
             (case tonal_adjust b c (exposure cfg) img_float of
                Inl err \<Rightarrow> Inl err
              | Inr img_float' \<Rightarrow>
                 (let img_processed = saturation_hue_stage L s (hue cfg) (to_uint8 img_float');
                      img_processed = (if truthy (accessibility_filter cfg)
                                       then apply_accessibility_filters L img_processed
                                              (accessibility_filter cfg)
                                       else img_processed);
                      processed_metrics = calculate_perceptual_metrics L img_processed;
                      adjustments = [''brightness'' \<mapsto> b, ''contrast'' \<mapsto> c,
                                     ''saturation'' \<mapsto> s, ''hue'' \<mapsto> hue cfg,
                                     ''exposure'' \<mapsto> exposure cfg];
                      summary = generate_explainable_summary original_metrics
                                  processed_metrics adjustments;
                      summary = (if truthy (accessibility_filter cfg)
                                 then summary @ bullet_sep @ ''Applied '' @
                                      filter_name (the (accessibility_filter cfg)) @
                                      '' accessibility filter''
                                 else summary)
                  in Inr \<lparr> returned = summary, written = Some img_processed \<rparr>))))"

text \<open>The image a call produced, if it produced one.\<close>

definition output_image :: "py_error + outcome \<Rightarrow> image option" where
  "output_image r = (case r of Inl err \<Rightarrow> None | Inr out \<Rightarrow> written out)"

definition identity_config :: config where
  "identity_config =
     \<lparr> brightness = 0, contrast = 1, saturation = 1, hue = 0, exposure = 0,
       accessibility_filter = None, auto_enhance = False \<rparr>"

section \<open>The summary as the specification words it\<close>

text \<open>
  Section 4.5 of the specification describes the summary by six rules, each contributing
  zero or one clause, and a fallback. The rules are written down here one by one, to be
  compared with \<open>explanations\<close>, which follows the source.
\<close>

definition sharpness_clause :: "metrics \<Rightarrow> metrics \<Rightarrow> string list" where
  "sharpness_clause om pm =
     (if \<bar>sharpness_change om pm\<bar> > 50
      then [if sharpness_change om pm > 0
            then ''Enhanced image sharpness for clearer details''
            else ''Softened image sharpness for smoother appearance'']
      else [])"

definition contrast_clause :: "metrics \<Rightarrow> metrics \<Rightarrow> string list" where
  "contrast_clause om pm =
     (if \<bar>contrast_change om pm\<bar> > 10
      then [if contrast_change om pm > 0
            then ''Increased contrast to make features more distinct''
            else ''Reduced contrast for a more balanced look'']
      else [])"

definition saturation_clause :: "metrics \<Rightarrow> metrics \<Rightarrow> string list" where
  "saturation_clause om pm =
     (if \<bar>saturation_change om pm\<bar> > 20
      then [if saturation_change om pm > 0
            then ''Boosted color saturation for more vibrant colors''
            else ''Desaturated colors for a more muted, elegant tone'']
      else [])"

definition brightness_clause :: "(string \<rightharpoonup> real) \<Rightarrow> string list" where
  "brightness_clause adj =
     (if dict_get adj ''brightness'' \<noteq> 0
      then [if dict_get adj ''brightness'' > 0
            then ''Brightened the image by '' @ fmt_fixed 1 (dict_get adj ''brightness'') @ '' levels''
            else ''Darkened the image by '' @ fmt_fixed 1 \<bar>dict_get adj ''brightness''\<bar> @ '' levels'']
      else [])"

definition hue_clause :: "(string \<rightharpoonup> real) \<Rightarrow> string list" where
  "hue_clause adj =
     (if dict_get adj ''hue'' \<noteq> 0
      then [''Shifted color hue by '' @ fmt_fixed 0 (dict_get adj ''hue'') @ '' degrees'']
      else [])"

definition exposure_clause :: "(string \<rightharpoonup> real) \<Rightarrow> string list" where
  "exposure_clause adj =
     (if dict_get adj ''exposure'' \<noteq> 0
      then [if dict_get adj ''exposure'' > 0
            then ''Increased exposure by '' @ fmt_fixed 1 (dict_get adj ''exposure'') @ '' stops''
            else ''Decreased exposure by '' @ fmt_fixed 1 \<bar>dict_get adj ''exposure''\<bar> @ '' stops'']
      else [])"

definition fired_clauses :: "metrics \<Rightarrow> metrics \<Rightarrow> (string \<rightharpoonup> real) \<Rightarrow> string list" where
  "fired_clauses om pm adj =
     sharpness_clause om pm @ contrast_clause om pm @ saturation_clause om pm @
     brightness_clause adj @ hue_clause adj @ exposure_clause adj"

section \<open>A library instance for concrete runs\<close>

text \<open>A simple instance of the library parameters: grey is the green channel, the
  colour conversions keep saturation and value and give hue 0, the statistics are 0.\<close>

definition plain_lib :: cvlib where
  "plain_lib =
     \<lparr> cvt_bgr2gray = (\<lambda>(c0, c1, c2). c1),
       cvt_bgr2hsv = (\<lambda>(c0, c1, c2). (0, c1, c2)),
       cvt_hsv2bgr = (\<lambda>(c0, c1, c2). (c0, c1, c2)),
       cvt_bgr2lab = (\<lambda>p. p),
       cvt_lab2bgr = (\<lambda>p. p),
       clahe_apply = (\<lambda>l. l),
       laplacian_var = (\<lambda>g. 0),
       hist_std_over_mean = (\<lambda>g. 0),
       np_std = (\<lambda>g. 0) \<rparr>"

section \<open>Predicates on float32 values\<close>

text \<open>A finite value in \<open>[0, 1]\<close>, and a Python scalar whose conversion to
  \<^verbatim>\<open>float32\<close> is finite.\<close>

definition unit_f32 :: "f32v \<Rightarrow> bool" where
  "unit_f32 v = (\<exists>r. v = Fin r \<and> 0 \<le> r \<and> r \<le> 1)"

definition f32_finite :: "real \<Rightarrow> bool" where
  "f32_finite s = (\<exists>r. to_f32 s = Fin r)"

section \<open>Integer arithmetic used to evaluate roundings\<close>

text \<open>Division of integers rounded half to even, and the check that normalising a byte
  \<open>n\<close> and scaling it back gives \<open>n\<close>, on integers only.\<close>

definition rdiv :: "int \<Rightarrow> int \<Rightarrow> int" where
  "rdiv a b =
     (let q = a div b; r = a mod b in
      if 2 * r < b then q else if b < 2 * r then q + 1 else if even q then q else q + 1)"

definition rt_chk :: "nat \<Rightarrow> bool" where
  "rt_chk n =
     (let s = (if n = 255 then 0 else nat (9 - bitlen (int n)));
          k = nat (bitlen (int n) - 1);
          m1 = rdiv (int n * 2 ^ (s + 23)) 255;
          m2 = rdiv (255 * m1 * 2 ^ (23 - k)) (2 ^ (s + 23))
      in 255 \<le> int n * 2 ^ s \<and> int n * 2 ^ s < 510 \<and> k \<le> 23 \<and>
         2 ^ (k + (s + 23)) \<le> 255 * m1 \<and> 255 * m1 < 2 * 2 ^ (k + (s + 23)) \<and>
         2 ^ 23 \<le> m1 \<and> m1 < 2 ^ 24 \<and>
         m2 = int n * 2 ^ (23 - k))"

section \<open>Properties of rounding\<close>

lemma round_half_even_of_int: "round_half_even (of_int n) = n"
  by (simp add: round_half_even_def)

lemma round_half_even_le: "x \<le> of_int n \<Longrightarrow> round_half_even x \<le> n"
  unfolding round_half_even_def Let_def
  by (auto; linarith)

lemma round_half_even_ge: "of_int n \<le> x \<Longrightarrow> n \<le> round_half_even x"
  unfolding round_half_even_def Let_def
  by (auto; linarith)

lemma powi_neg_nat: "0 \<le> b \<Longrightarrow> (2::real) powi (- b) = 1 / 2 ^ nat b"
  by (simp add: power_int_minus_divide power_int_nonneg_exp)

lemma binade_lower:
  assumes "x \<noteq> 0"
  shows "2 powi binade x \<le> \<bar>x\<bar>"
proof (cases "1 \<le> \<bar>x\<bar>")
  case True
  define n where "n = \<lfloor>\<bar>x\<bar>\<rfloor>"
  have n: "0 < n" using True by (simp add: n_def)
  have b: "1 \<le> bitlen n" using n by (simp add: bitlen_alt_def)
  have "(2::int) ^ nat (bitlen n - 1) \<le> n" using bitlen_bounds [OF n] by simp
  then have "(2::real) ^ nat (bitlen n - 1) \<le> of_int n"
    by (metis of_int_le_iff of_int_numeral of_int_power)
  also have "\<dots> \<le> \<bar>x\<bar>" by (simp add: n_def)
  finally have "(2::real) ^ nat (bitlen n - 1) \<le> \<bar>x\<bar>" .
  moreover have "binade x = bitlen n - 1" using True by (simp add: binade_def n_def)
  ultimately show ?thesis using b by (simp add: power_int_def)
next
  case False
  define a where "a = \<bar>x\<bar>"
  have a: "0 < a" "a < 1" using False assms by (simp_all add: a_def)
  define m where "m = \<lceil>1 / a\<rceil> - 1"
  have "1 < 1 / a" using a by simp
  then have m: "0 < m" unfolding m_def by linarith
  have "1 / a \<le> of_int (m + 1)" unfolding m_def by simp
  also have "m + 1 \<le> 2 ^ nat (bitlen m)" using bitlen_bounds [OF m] by simp
  then have "(of_int (m + 1) :: real) \<le> 2 ^ nat (bitlen m)"
    by (metis of_int_le_iff of_int_numeral of_int_power)
  finally have "1 / a \<le> 2 ^ nat (bitlen m)" .
  then have "1 / 2 ^ nat (bitlen m) \<le> a" using a
    by (simp add: field_simps)
  moreover have "binade x = - bitlen m" using False by (simp add: binade_def m_def a_def)
  moreover have "0 \<le> bitlen m" by (rule bitlen_nonneg)
  ultimately show ?thesis
    by (simp add: powi_neg_nat a_def)
qed

lemma binade_upper:
  assumes "x \<noteq> 0"
  shows "\<bar>x\<bar> < 2 powi (binade x + 1)"
proof (cases "1 \<le> \<bar>x\<bar>")
  case True
  define n where "n = \<lfloor>\<bar>x\<bar>\<rfloor>"
  have n: "0 < n" using True by (simp add: n_def)
  have b: "1 \<le> bitlen n" using n by (simp add: bitlen_alt_def)
  have "n + 1 \<le> 2 ^ nat (bitlen n)" using bitlen_bounds [OF n] by simp
  then have "(of_int (n + 1) :: real) \<le> 2 ^ nat (bitlen n)"
    by (metis of_int_le_iff of_int_numeral of_int_power)
  moreover have "\<bar>x\<bar> < of_int (n + 1)" unfolding n_def by linarith
  ultimately have "\<bar>x\<bar> < 2 ^ nat (bitlen n)" by linarith
  moreover have "binade x + 1 = bitlen n" using True by (simp add: binade_def n_def)
  ultimately show ?thesis using b by (simp add: power_int_def)
next
  case False
  define a where "a = \<bar>x\<bar>"
  have a: "0 < a" "a < 1" using False assms by (simp_all add: a_def)
  define m where "m = \<lceil>1 / a\<rceil> - 1"
  have "1 < 1 / a" using a by simp
  then have m: "0 < m" unfolding m_def by linarith
  have b: "1 \<le> bitlen m" using m by (simp add: bitlen_alt_def)
  have "(2::int) ^ nat (bitlen m - 1) \<le> m" using bitlen_bounds [OF m] by simp
  then have "(2::real) ^ nat (bitlen m - 1) \<le> of_int m"
    by (metis of_int_le_iff of_int_numeral of_int_power)
  also have "of_int m < 1 / a" unfolding m_def by linarith
  finally have "2 ^ nat (bitlen m - 1) < 1 / a" .
  then have "a < 1 / 2 ^ nat (bitlen m - 1)" using a
    by (simp add: field_simps)
  moreover have "binade x + 1 = - (bitlen m - 1)" using False by (simp add: binade_def m_def a_def)
  moreover have "0 \<le> bitlen m - 1" using b by simp
  ultimately show ?thesis
    by (simp only: powi_neg_nat a_def)
qed

lemma binade_eqI:
  assumes "2 powi e \<le> \<bar>x\<bar>" and "\<bar>x\<bar> < 2 powi (e + 1)"
  shows "binade x = e"
proof -
  have "(0::real) < 2 powi e" by (simp add: zero_less_power_int)
  then have "0 < \<bar>x\<bar>" using assms(1) by linarith
  then have x: "x \<noteq> 0" by auto
  have mono: "\<And>i j::int. (2::real) powi i < 2 powi j \<Longrightarrow> i < j"
    by (rule ccontr) (simp add: not_less power_int_increasing not_le [symmetric])
  have "(2::real) powi e < 2 powi (binade x + 1)"
    using assms(1) binade_upper [OF x] by linarith
  moreover have "(2::real) powi binade x < 2 powi (e + 1)"
    using assms(2) binade_lower [OF x] by linarith
  ultimately have "e < binade x + 1" "binade x < e + 1"
    by (auto dest: mono)
  then show ?thesis by simp
qed

lemma binade_less_prec:
  assumes "x \<noteq> 0" and "\<bar>x\<bar> < 2 ^ p"
  shows "binade x < int p"
proof -
  have lt: "(2::real) powi binade x < 2 powi int p"
    using binade_lower [OF assms(1)] assms(2) by simp
  show ?thesis
  proof (rule ccontr)
    assume "\<not> binade x < int p"
    then have "int p \<le> binade x" by simp
    then have "(2::real) powi int p \<le> 2 powi binade x"
      by (rule power_int_increasing) simp
    with lt show False by simp
  qed
qed

lemma ulp_small:
  assumes "e < int p"
  shows "(2::real) powi (e - (int p - 1)) = 1 / 2 ^ nat (int p - 1 - e)"
proof -
  have "e - (int p - 1) = - (int p - 1 - e)" by simp
  moreover have "0 \<le> int p - 1 - e" using assms by simp
  ultimately show ?thesis by (simp only: powi_neg_nat)
qed

lemma fl_nonneg:
  assumes "0 \<le> x"
  shows "0 \<le> fl p x"
proof (cases "x = 0")
  case True
  then show ?thesis by (simp add: fl_def)
next
  case False
  define u :: real where "u = 2 powi (binade x - (int p - 1))"
  have u: "0 < u" by (simp add: u_def)
  have "of_int 0 \<le> x / u" using assms u by simp
  then have "0 \<le> round_half_even (x / u)" by (rule round_half_even_ge)
  then show ?thesis using False u by (simp add: fl_def Let_def u_def [symmetric])
qed

lemma fl_le_int:
  assumes "0 \<le> x" and "x \<le> of_int c" and "c < 2 ^ p"
  shows "fl p x \<le> of_int c"
proof (cases "x = 0")
  case True
  then show ?thesis using assms by (simp add: fl_def)
next
  case False
  define k where "k = nat (int p - 1 - binade x)"
  define u :: real where "u = 2 powi (binade x - (int p - 1))"
  have "(of_int c :: real) < 2 ^ p" using assms(3)
    by (metis of_int_less_iff of_int_numeral of_int_power)
  then have "\<bar>x\<bar> < 2 ^ p" using assms(1,2) by linarith
  then have "binade x < int p" by (rule binade_less_prec [OF False])
  then have u: "u = 1 / 2 ^ k" unfolding u_def k_def by (rule ulp_small)
  have "x / u \<le> of_int (c * 2 ^ k)" using assms(2) by (simp add: u)
  then have "round_half_even (x / u) \<le> c * 2 ^ k" by (rule round_half_even_le)
  then have "(of_int (round_half_even (x / u)) :: real) \<le> of_int (c * 2 ^ k)"
    by (simp only: of_int_le_iff)
  then have "of_int (round_half_even (x / u)) * u \<le> of_int c"
    by (simp add: u field_simps)
  then show ?thesis using False by (simp add: fl_def Let_def u_def [symmetric])
qed

lemma fl_of_int:
  assumes "\<bar>n\<bar> < 2 ^ p"
  shows "fl p (of_int n) = of_int n"
proof (cases "n = 0")
  case True
  then show ?thesis by (simp add: fl_def)
next
  case False
  define x :: real where "x = of_int n"
  define k where "k = nat (int p - 1 - binade x)"
  define u :: real where "u = 2 powi (binade x - (int p - 1))"
  have x0: "x \<noteq> 0" using False by (simp add: x_def)
  have "(of_int \<bar>n\<bar> :: real) < 2 ^ p" using assms
    by (metis of_int_less_iff of_int_numeral of_int_power)
  then have "\<bar>x\<bar> < 2 ^ p" by (simp add: x_def)
  then have "binade x < int p" by (rule binade_less_prec [OF x0])
  then have u: "u = 1 / 2 ^ k" unfolding u_def k_def by (rule ulp_small)
  have "x / u = of_int (n * 2 ^ k)" by (simp add: u x_def)
  then have "round_half_even (x / u) = n * 2 ^ k" by (simp only: round_half_even_of_int)
  then have "of_int (round_half_even (x / u)) * u = x"
    by (simp add: u x_def)
  then show ?thesis using x0 by (simp add: fl_def Let_def u_def [symmetric] x_def [symmetric])
qed

lemma f32_of_nat: "n < 16777216 \<Longrightarrow> f32 (of_nat n) = of_nat n"
  using fl_of_int [of "int n" 24] by (simp add: f32_def)

lemma f32_unit: "0 \<le> x \<Longrightarrow> x \<le> 1 \<Longrightarrow> 0 \<le> f32 x \<and> f32 x \<le> 1"
  using fl_nonneg [of x 24] fl_le_int [of x 1 24] by (simp add: f32_def)

lemma f32_byte: "0 \<le> x \<Longrightarrow> x \<le> 255 \<Longrightarrow> 0 \<le> f32 x \<and> f32 x \<le> 255"
  using fl_nonneg [of x 24] fl_le_int [of x 255 24] by (simp add: f32_def)

lemma round_half_even_frac:
  assumes "0 < b"
  shows "round_half_even (of_int a / of_int b) = rdiv a b"
proof -
  have f: "\<lfloor>(of_int a :: real) / of_int b\<rfloor> = a div b"
    by (simp add: floor_divide_of_int_eq)
  have eq: "(of_int a :: real) = of_int (a div b) * of_int b + of_int (a mod b)"
    by (simp flip: of_int_mult of_int_add)
  have "(of_int a :: real) / of_int b =
      (of_int (a div b) * of_int b + of_int (a mod b)) / of_int b"
    by (simp only: eq [symmetric])
  also have "\<dots> = of_int (a div b) + of_int (a mod b) / of_int b"
    using assms by (simp add: add_divide_distrib)
  finally have "(of_int a :: real) / of_int b = of_int (a div b) + of_int (a mod b) / of_int b" .
  then have d: "(of_int a :: real) / of_int b - of_int (a div b) = of_int (a mod b) / of_int b"
    by simp
  have lt: "(of_int (a mod b) / of_int b < (1::real) / 2) = (2 * (a mod b) < b)"
    using assms by (simp add: field_simps) linarith
  have gt: "((1::real) / 2 < of_int (a mod b) / of_int b) = (b < 2 * (a mod b))"
    using assms by (simp add: field_simps) linarith
  show ?thesis
    unfolding round_half_even_def rdiv_def Let_def f d lt gt ..
qed

lemma rdiv_exact: "0 < b \<Longrightarrow> rdiv (m * b) b = m"
  by (simp add: rdiv_def)

lemma powi_pred: "(2::real) powi (e - 1) = 2 powi e / 2"
  by (simp add: power_int_diff)

lemma powi_succ: "(2::real) powi (e + 1) = 2 powi e * 2"
  by (simp add: power_int_add)

lemma binade_half:
  assumes "x \<noteq> 0"
  shows "binade (x / 2) = binade x - 1"
proof (rule binade_eqI)
  show "2 powi (binade x - 1) \<le> \<bar>x / 2\<bar>"
    using binade_lower [OF assms] by (simp add: powi_pred)
  show "\<bar>x / 2\<bar> < 2 powi (binade x - 1 + 1)"
    using binade_upper [OF assms] by (simp add: powi_succ)
qed

lemma fl_half: "fl p (x / 2) = fl p x / 2"
proof (cases "x = 0")
  case True
  then show ?thesis by (simp add: fl_def)
next
  case False
  define u :: real where "u = 2 powi (binade x - (int p - 1))"
  have e: "binade (x / 2) - (int p - 1) = (binade x - (int p - 1)) - 1"
    by (simp add: binade_half [OF False])
  have u2: "2 powi (binade (x / 2) - (int p - 1)) = u / 2"
    by (simp only: e powi_pred u_def)
  have nz: "x / 2 \<noteq> 0" using False by simp
  have "fl p (x / 2) = of_int (round_half_even (x / 2 / (u / 2))) * (u / 2)"
    by (simp only: fl_def nz if_False Let_def u2)
  also have "x / 2 / (u / 2) = x / u" by simp
  finally have "fl p (x / 2) = of_int (round_half_even (x / u)) * u / 2" by simp
  moreover have "fl p x = of_int (round_half_even (x / u)) * u"
    by (simp only: fl_def False if_False Let_def u_def)
  ultimately show ?thesis by simp
qed

lemma fl_frac_eval:
  fixes a b e :: int
  assumes a: "0 < a" and b: "0 < b" and ep: "e < int p"
    and lo: "2 powi e * of_int b \<le> (of_int a :: real)"
    and hi: "(of_int a :: real) < 2 powi (e + 1) * of_int b"
  shows "fl p (of_int a / of_int b) =
         of_int (rdiv (a * 2 ^ nat (int p - 1 - e)) b) / 2 ^ nat (int p - 1 - e)"
proof -
  define x :: real where "x = of_int a / of_int b"
  define k where "k = nat (int p - 1 - e)"
  have x: "0 < x" using a b by (simp add: x_def)
  have "2 powi e \<le> x" using lo b by (simp add: x_def field_simps)
  moreover have "x < 2 powi (e + 1)" using hi b by (simp add: x_def field_simps)
  ultimately have e: "binade x = e" using x by (intro binade_eqI) simp_all
  have u: "(2::real) powi (binade x - (int p - 1)) = 1 / 2 ^ k"
    unfolding e k_def using ep by (rule ulp_small)
  have "x / (1 / 2 ^ k) = of_int (a * 2 ^ k) / of_int b" by (simp add: x_def)
  then have "round_half_even (x / (1 / 2 ^ k)) = rdiv (a * 2 ^ k) b"
    using b by (simp only: round_half_even_frac)
  then show ?thesis
    using x unfolding x_def [symmetric] k_def [symmetric]
    by (simp add: fl_def Let_def u)
qed

lemma rt_chk_sound:
  assumes chk: "rt_chk n" and n: "0 < n"
  shows "f32 (f32 (real n / 255) * 255) = real n"
    and "f32 (f32 (real n / 255)) = f32 (real n / 255)"
proof -
  define s where "s = (if n = 255 then 0 else nat (9 - bitlen (int n)))"
  define k where "k = nat (bitlen (int n) - 1)"
  define m1 where "m1 = rdiv (int n * 2 ^ (s + 23)) 255"
  define m2 where "m2 = rdiv (255 * m1 * 2 ^ (23 - k)) (2 ^ (s + 23))"
  from chk have c1: "255 \<le> int n * 2 ^ s" and c2: "int n * 2 ^ s < 510" and c3: "k \<le> 23"
    and c4: "2 ^ (k + (s + 23)) \<le> 255 * m1" and c5: "255 * m1 < 2 * 2 ^ (k + (s + 23))"
    and c6: "2 ^ 23 \<le> m1" and c7: "m1 < 2 ^ 24" and c8: "m2 = int n * 2 ^ (23 - k)"
    unfolding rt_chk_def Let_def s_def [symmetric] k_def [symmetric] m1_def [symmetric]
      m2_def [symmetric] by simp_all
  have p1: "(2::real) powi (- int s) = 1 / 2 ^ s"
    by (simp add: powi_neg_nat)
  have p2: "(2::real) powi (- int s + 1) = 2 / 2 ^ s"
    by (simp only: powi_succ p1)
  have r1: "(255::real) \<le> real n * 2 ^ s"
  proof -
    have "(of_int (255) :: real) \<le> of_int (int n * 2 ^ s)"
      using c1 by (simp only: of_int_le_iff)
    then show ?thesis by simp
  qed
  have r2: "real n * 2 ^ s < 510"
  proof -
    have "(of_int (int n * 2 ^ s) :: real) < of_int (510)"
      using c2 by (simp only: of_int_less_iff)
    then show ?thesis by simp
  qed
  have "fl 24 (of_int (int n) / of_int 255) =
      of_int (rdiv (int n * 2 ^ nat (int 24 - 1 - (- int s))) 255) / 2 ^ nat (int 24 - 1 - (- int s))"
  proof (rule fl_frac_eval)
    show "0 < int n" using n by simp
    show "(0::int) < 255" by simp
    show "- int s < int 24" by simp
    show "2 powi (- int s) * of_int 255 \<le> (of_int (int n) :: real)"
      unfolding p1 using r1 by (simp add: field_simps)
    show "(of_int (int n) :: real) < 2 powi (- int s + 1) * of_int 255"
      unfolding p2 using r2 by (simp add: field_simps)
  qed
  moreover have "nat (int 24 - 1 - (- int s)) = s + 23" by simp
  ultimately have y: "f32 (real n / 255) = of_int m1 / 2 ^ (s + 23)"
    by (simp add: f32_def m1_def)
  have c4r: "(2::real) ^ (k + (s + 23)) \<le> of_int (255 * m1)"
  proof -
    have "(of_int (2 ^ (k + (s + 23))) :: real) \<le> of_int (255 * m1)"
      using c4 by (simp only: of_int_le_iff)
    then show ?thesis by simp
  qed
  have c5r: "(of_int (255 * m1) :: real) < 2 * 2 ^ (k + (s + 23))"
  proof -
    have "(of_int (255 * m1) :: real) < of_int (2 * 2 ^ (k + (s + 23)))"
      using c5 by (simp only: of_int_less_iff)
    then show ?thesis by simp
  qed
  have "fl 24 (of_int (255 * m1) / of_int (2 ^ (s + 23))) =
      of_int (rdiv (255 * m1 * 2 ^ nat (int 24 - 1 - int k)) (2 ^ (s + 23))) /
        2 ^ nat (int 24 - 1 - int k)"
  proof (rule fl_frac_eval)
    show "0 < 255 * m1" using c6 by simp
    show "(0::int) < 2 ^ (s + 23)" by simp
    show "int k < int 24" using c3 by simp
    show "2 powi int k * of_int (2 ^ (s + 23)) \<le> (of_int (255 * m1) :: real)"
      using c4r by (simp add: power_add)
    show "(of_int (255 * m1) :: real) < 2 powi (int k + 1) * of_int (2 ^ (s + 23))"
      using c5r by (simp add: powi_succ power_add)
  qed
  moreover have "nat (int 24 - 1 - int k) = 23 - k" using c3 by simp
  ultimately have "f32 (of_int (255 * m1) / 2 ^ (s + 23)) = of_int m2 / 2 ^ (23 - k)"
    by (simp add: f32_def m2_def)
  then have "f32 (of_int m1 / 2 ^ (s + 23) * 255) = real n"
    by (simp add: c8 mult.commute)
  then show "f32 (f32 (real n / 255) * 255) = real n"
    by (simp only: y)
  have c6r: "(2::real) ^ 23 \<le> of_int m1"
  proof -
    have "(of_int (2 ^ 23) :: real) \<le> of_int (m1)"
      using c6 by (simp only: of_int_le_iff)
    then show ?thesis by simp
  qed
  have c7r: "(of_int m1 :: real) < 2 ^ 24"
  proof -
    have "(of_int (m1) :: real) < of_int (2 ^ 24)"
      using c7 by (simp only: of_int_less_iff)
    then show ?thesis by simp
  qed
  have "fl 24 (of_int m1 / of_int (2 ^ (s + 23))) =
      of_int (rdiv (m1 * 2 ^ nat (int 24 - 1 - (- int s))) (2 ^ (s + 23))) /
        2 ^ nat (int 24 - 1 - (- int s))"
  proof (rule fl_frac_eval)
    show "0 < m1" using c6 by simp
    show "(0::int) < 2 ^ (s + 23)" by simp
    show "- int s < int 24" by simp
    show "2 powi (- int s) * of_int (2 ^ (s + 23)) \<le> (of_int m1 :: real)"
      unfolding p1 using c6r by (simp add: power_add)
    show "(of_int m1 :: real) < 2 powi (- int s + 1) * of_int (2 ^ (s + 23))"
      unfolding p2 using c7r by (simp add: power_add)
  qed
  moreover have "nat (int 24 - 1 - (- int s)) = s + 23" by simp
  ultimately have "f32 (of_int m1 / 2 ^ (s + 23)) = of_int m1 / 2 ^ (s + 23)"
    by (simp add: f32_def rdiv_exact)
  then show "f32 (f32 (real n / 255)) = f32 (real n / 255)"
    by (simp only: y)
qed

lemma rt_chk_1: "list_all rt_chk [1..<64]"
  by code_simp

lemma rt_chk_2: "list_all rt_chk [64..<128]"
  by code_simp

lemma rt_chk_3: "list_all rt_chk [128..<192]"
  by code_simp

lemma rt_chk_4: "list_all rt_chk [192..<256]"
  by code_simp

lemma rt_chk_byte:
  assumes "0 < n" and "n < 256"
  shows "rt_chk n"
proof -
  have "n \<in> set [1..<64] \<or> n \<in> set [64..<128] \<or> n \<in> set [128..<192] \<or> n \<in> set [192..<256]"
    using assms unfolding set_upt atLeastLessThan_iff by linarith
  then show ?thesis
    using rt_chk_1 rt_chk_2 rt_chk_3 rt_chk_4 unfolding list_all_iff by blast
qed

section \<open>Decode failure\<close>

text \<open>
  Claim C10. When \<open>cv2.imread\<close> returns \<open>None\<close> (the input is not a decodable
  image), \<open>process_image\<close> returns the string \<open>"Error: Could not load image"\<close> and
  nothing else happens: no image is handed to \<open>cv2.imwrite\<close>, and the result depends
  neither on the library routines (no metric, transform or filter is evaluated) nor on
  the configuration.
\<close>

theorem decode_failure_reported:
  "process_image L None cfg =
     Inr \<lparr> returned = ''Error: Could not load image'', written = None \<rparr>"
  by (simp add: process_image_def)

section \<open>Accessibility filters: unknown kinds\<close>

text \<open>
  Claim C7. For a filter kind other than \<open>high_contrast\<close>,
  \<open>colorblind_protanopia\<close>, \<open>colorblind_deuteranopia\<close> and
  \<open>colorblind_tritanopia\<close> (the string \<open>none\<close>, any other string, or Python's
  \<open>None\<close>), \<open>apply_accessibility_filters\<close> returns its input image unchanged.
\<close>

theorem unknown_filter_identity:
  assumes "filter_type \<noteq> Some ''high_contrast''"
    and "filter_type \<noteq> Some ''colorblind_protanopia''"
    and "filter_type \<noteq> Some ''colorblind_deuteranopia''"
    and "filter_type \<noteq> Some ''colorblind_tritanopia''"
  shows "apply_accessibility_filters L img filter_type = img"
  using assms by (simp add: apply_accessibility_filters_def)

theorem unknown_filter_identity_witness:
  "\<forall>L img. apply_accessibility_filters L img (Some ''none'') = img \<and>
     apply_accessibility_filters L img (Some ''sepia'') = img \<and>
     apply_accessibility_filters L img None = img"
  using unknown_filter_identity [of "Some ''none''"] unknown_filter_identity [of "Some ''sepia''"]
    unknown_filter_identity [of None]
  by simp

section \<open>The explainable summary\<close>

lemma if_append2:
  "(if P then (if Q then e @ [a] else e @ [b]) else e) = e @ (if P then [if Q then a else b] else [])"
  by simp

lemma if_append1: "(if P then e @ [a] else e) = e @ (if P then [a] else [])"
  by simp

lemma explanations_fired: "explanations om pm adj = fired_clauses om pm adj"
  unfolding explanations_def fired_clauses_def sharpness_clause_def contrast_clause_def
    saturation_clause_def brightness_clause_def hue_clause_def exposure_clause_def Let_def
    if_append2 if_append1
  by (simp only: append_Nil append_assoc)






section \<open>Gamma correction\<close>

lemma gamma_of_total: "gamma_of c = Inr (if 0 < c then f64 (1 / c) else 1)"
  by (simp add: gamma_of_def py_div_def)

text \<open>
  Claim C3. The gamma stage of \<open>process_image\<close> runs exactly when the contrast in
  effect differs from 1: with contrast 1 the tonal pipeline is the brightness and
  exposure stages alone, whatever their values. When it runs, every channel value \<open>v\<close>
  becomes \<open>np.power(v, gamma)\<close> with \<open>gamma = 1.0 / contrast\<close> for a positive
  contrast and \<open>gamma = 1.0\<close> otherwise; computing \<open>gamma\<close> never raises, since the
  division is only reached with a positive divisor.
\<close>

theorem gamma_stage_behaviour:
  "gamma_of c = Inr (if 0 < c then f64 (1 / c) else 1) \<and>
   gamma_stage c img_float =
     Inr (if c \<noteq> 1
          then map_img (\<lambda>v. np_power v (if 0 < c then f64 (1 / c) else 1)) img_float
          else img_float) \<and>
   tonal_adjust b c e img_float =
     (case exposure_stage e (contrast_stage c (brightness_stage b img_float)) of
        Inl err \<Rightarrow> Inl err
      | Inr x \<Rightarrow>
          Inr (if c \<noteq> 1
               then map_img (\<lambda>v. np_power v (if 0 < c then f64 (1 / c) else 1)) x
               else x)) \<and>
   tonal_adjust b 1 e img_float = exposure_stage e (brightness_stage b img_float)"
proof -
  have g: "\<And>x. gamma_stage c x =
     Inr (if c \<noteq> 1
          then map_img (\<lambda>v. np_power v (if 0 < c then f64 (1 / c) else 1)) x
          else x)"
    by (simp add: gamma_stage_def gamma_of_total)
  have t1: "tonal_adjust b 1 e img_float = exposure_stage e (brightness_stage b img_float)"
    by (simp add: tonal_adjust_def contrast_stage_def gamma_stage_def split: sum.split)
  have t: "tonal_adjust b c e img_float =
     (case exposure_stage e (contrast_stage c (brightness_stage b img_float)) of
        Inl err \<Rightarrow> Inl err
      | Inr x \<Rightarrow>
          Inr (if c \<noteq> 1
               then map_img (\<lambda>v. np_power v (if 0 < c then f64 (1 / c) else 1)) x
               else x))"
    by (cases "exposure_stage e (contrast_stage c (brightness_stage b img_float))")
      (simp_all add: tonal_adjust_def g)
  show ?thesis
    by (intro conjI gamma_of_total g t t1)
qed

section \<open>Auto-enhancement\<close>

text \<open>
  Claim C4. With \<open>auto_enhance\<close> set, the brightness in effect is the requested one
  plus 0.2 when the mean grey level is below 80, minus 0.2 when it is above 180 (never
  both), and the requested one otherwise; the contrast in effect is
  \<open>max(contrast, 1.2)\<close> when the original contrast metric is below 30; the saturation
  in effect is \<open>max(saturation, 1.1)\<close> when the original saturation metric is below
  100. Without \<open>auto_enhance\<close> the requested values are used. Nothing else of the
  configuration changes: the call equals the call without \<open>auto_enhance\<close> on the
  configuration with these three values. Sums and differences are binary64 operations,
  and 0.2, 1.2, 1.1 are the binary64 numbers nearest to them.
\<close>

theorem auto_enhance_rules:
  assumes "original_metrics = calculate_perceptual_metrics L img"
    and "auto_adjust L img original_metrics cfg = (b, c, s)"
    and "m = np_mean (map (map (cvt_bgr2gray L)) img)"
  shows "(auto_enhance cfg \<and> m < 80 \<longrightarrow> b = f64 (brightness cfg + f64 (2 / 10))) \<and>
         (auto_enhance cfg \<and> 180 < m \<longrightarrow> b = f64 (brightness cfg - f64 (2 / 10))) \<and>
         (auto_enhance cfg \<and> 80 \<le> m \<and> m \<le> 180 \<longrightarrow> b = brightness cfg) \<and>
         \<not> (m < 80 \<and> 180 < m) \<and>
         (auto_enhance cfg \<and> contrast_metric original_metrics < 30 \<longrightarrow>
            c = max (contrast cfg) (f64 (12 / 10))) \<and>
         (auto_enhance cfg \<and> \<not> contrast_metric original_metrics < 30 \<longrightarrow> c = contrast cfg) \<and>
         (auto_enhance cfg \<and> saturation_metric original_metrics < 100 \<longrightarrow>
            s = max (saturation cfg) (f64 (11 / 10))) \<and>
         (auto_enhance cfg \<and> \<not> saturation_metric original_metrics < 100 \<longrightarrow> s = saturation cfg) \<and>
         (\<not> auto_enhance cfg \<longrightarrow>
            b = brightness cfg \<and> c = contrast cfg \<and> s = saturation cfg) \<and>
         process_image L (Some img) cfg =
           process_image L (Some img)
             (cfg\<lparr>brightness := b, contrast := c, saturation := s, auto_enhance := False\<rparr>)"
proof -
  have rules: "(auto_enhance cfg \<and> m < 80 \<longrightarrow> b = f64 (brightness cfg + f64 (2 / 10))) \<and>
         (auto_enhance cfg \<and> 180 < m \<longrightarrow> b = f64 (brightness cfg - f64 (2 / 10))) \<and>
         (auto_enhance cfg \<and> 80 \<le> m \<and> m \<le> 180 \<longrightarrow> b = brightness cfg) \<and>
         \<not> (m < 80 \<and> 180 < m) \<and>
         (auto_enhance cfg \<and> contrast_metric original_metrics < 30 \<longrightarrow>
            c = max (contrast cfg) (f64 (12 / 10))) \<and>
         (auto_enhance cfg \<and> \<not> contrast_metric original_metrics < 30 \<longrightarrow> c = contrast cfg) \<and>
         (auto_enhance cfg \<and> saturation_metric original_metrics < 100 \<longrightarrow>
            s = max (saturation cfg) (f64 (11 / 10))) \<and>
         (auto_enhance cfg \<and> \<not> saturation_metric original_metrics < 100 \<longrightarrow> s = saturation cfg) \<and>
         (\<not> auto_enhance cfg \<longrightarrow>
            b = brightness cfg \<and> c = contrast cfg \<and> s = saturation cfg)"
    using assms by (auto simp: auto_adjust_def Let_def split: if_splits)
  define cfg' where
    "cfg' = cfg\<lparr>brightness := b, contrast := c, saturation := s, auto_enhance := False\<rparr>"
  have sel: "hue cfg' = hue cfg" "exposure cfg' = exposure cfg"
    "accessibility_filter cfg' = accessibility_filter cfg"
    by (simp_all add: cfg'_def)
  have off: "\<And>om. auto_adjust L img om cfg' = (b, c, s)"
    by (simp add: auto_adjust_def cfg'_def)
  have "process_image L (Some img) cfg = process_image L (Some img) cfg'"
    unfolding process_image_def option.case Let_def off assms(2) [unfolded assms(1)] sel ..
  then have "process_image L (Some img) cfg =
      process_image L (Some img)
        (cfg\<lparr>brightness := b, contrast := c, saturation := s, auto_enhance := False\<rparr>)"
    by (simp only: cfg'_def)
  with rules show ?thesis by blast
qed

lemma np_mean_zero: "np_mean [[0]] = 0"
  by (simp add: np_mean_def f64_def fl_def)

theorem auto_enhance_rules_witness:
  "np_mean (map (map (cvt_bgr2gray plain_lib)) [[(0, 0, 0)]]) < 80 \<and>
   auto_adjust plain_lib [[(0, 0, 0)]] (calculate_perceptual_metrics plain_lib [[(0, 0, 0)]])
     (identity_config\<lparr>auto_enhance := True\<rparr>) =
     (f64 (0 + f64 (2 / 10)), max 1 (f64 (12 / 10)), max 1 (f64 (11 / 10)))"
proof -
  define om where "om = calculate_perceptual_metrics plain_lib [[(0, 0, 0)]]"
  define cfg where "cfg = identity_config\<lparr>auto_enhance := True\<rparr>"
  define m where "m = np_mean (map (map (cvt_bgr2gray plain_lib)) [[(0, 0, 0)]])"
  obtain b c s where eq: "auto_adjust plain_lib [[(0, 0, 0)]] om cfg = (b, c, s)"
    by (metis prod_cases3)
  have m: "m = 0" by (simp add: m_def plain_lib_def np_mean_zero)
  have om: "contrast_metric om = 0" "saturation_metric om = 0"
    by (simp_all add: om_def calculate_perceptual_metrics_def plain_lib_def np_mean_zero)
  have cfg: "auto_enhance cfg" "brightness cfg = 0" "contrast cfg = 1" "saturation cfg = 1"
    by (simp_all add: cfg_def identity_config_def)
  from auto_enhance_rules [OF om_def eq m_def]
  have "b = f64 (0 + f64 (2 / 10))" "c = max 1 (f64 (12 / 10))" "s = max 1 (f64 (11 / 10))"
    using m om cfg by simp_all
  with eq m show ?thesis
    unfolding om_def cfg_def m_def by simp
qed

section \<open>Overflow of the exposure factor\<close>

text \<open>
  Claim C9 says that no finite configuration makes the tonal pipeline raise. With
  \<open>exposure = 1024.0\<close> the scalar \<open>2 ** exposure\<close> overflows binary64 and Python
  raises \<open>OverflowError\<close> before \<open>np.clip\<close> is reached, for every image and every
  value of the other fields.
\<close>

theorem exposure_overflow_raises:
  "process_image L (Some img) (cfg\<lparr>exposure := 1024\<rparr>) = Inl OverflowError"
proof -
  have t: "\<And>b c x. tonal_adjust b c 1024 x = Inl OverflowError"
    by (simp add: tonal_adjust_def exposure_stage_def py_pow2_def)
  show ?thesis
    by (simp add: process_image_def Let_def t split: prod.split)
qed

lemma tonal_adjust_total:
  assumes "e < 1024"
  shows "\<exists>out. tonal_adjust b c e img_float = Inr out"
  using assms
  by (simp add: tonal_adjust_def exposure_stage_def py_pow2_def gamma_stage_def gamma_of_total)

section \<open>Rounding to float32\<close>

lemma fl_ge_pow2:
  assumes "2 powi k \<le> x" and p: "0 < p"
  shows "2 powi k \<le> fl p x"
proof -
  have x0: "0 < x" using assms zero_less_power_int [of "2::real" k] by linarith
  then have xn: "x \<noteq> 0" by simp
  define e where "e = binade x"
  define u :: real where "u = 2 powi (e - (int p - 1))"
  have u: "0 < u" by (simp add: u_def)
  have lo: "2 powi e \<le> x" using binade_lower [OF xn] x0 by (simp add: e_def)
  have hi: "x < 2 powi (e + 1)" using binade_upper [OF xn] x0 by (simp add: e_def)
  have ke: "k \<le> e"
  proof (rule ccontr)
    assume "\<not> k \<le> e"
    then have "e + 1 \<le> k" by simp
    then have "(2::real) powi (e + 1) \<le> 2 powi k" by (rule power_int_increasing) simp
    with assms(1) hi show False by linarith
  qed
  have "2 powi e / u = (2::real) powi (int p - 1)"
    by (simp add: u_def power_int_diff)
  also have "\<dots> = of_int (2 ^ nat (int p - 1))"
    using p by (simp add: power_int_def)
  finally have eq: "2 powi e / u = of_int (2 ^ nat (int p - 1))" .
  have "2 powi e / u \<le> x / u" using lo u by (simp add: divide_right_mono)
  then have "of_int (2 ^ nat (int p - 1)) \<le> x / u" by (simp only: eq)
  then have "2 ^ nat (int p - 1) \<le> round_half_even (x / u)" by (rule round_half_even_ge)
  then have "(of_int (2 ^ nat (int p - 1)) :: real) \<le> of_int (round_half_even (x / u))"
    by (simp only: of_int_le_iff)
  then have "of_int (2 ^ nat (int p - 1)) * u \<le> of_int (round_half_even (x / u)) * u"
    using u by (simp only: mult_le_cancel_right_pos)
  moreover have "of_int (2 ^ nat (int p - 1)) * u = (2::real) powi e"
  proof -
    have "of_int (2 ^ nat (int p - 1)) * u = 2 powi e / u * u" by (simp only: eq)
    also have "\<dots> = 2 powi e" using u by simp
    finally show ?thesis .
  qed
  moreover have "fl p x = of_int (round_half_even (x / u)) * u"
    using xn by (simp add: fl_def Let_def u_def e_def)
  moreover have "(2::real) powi k \<le> 2 powi e" using ke by (rule power_int_increasing) simp
  ultimately show ?thesis by linarith
qed

lemma binade_normal:
  assumes "2 powi (- 126) \<le> \<bar>x\<bar>"
  shows "- 126 \<le> binade x"
proof (rule ccontr)
  assume "\<not> - 126 \<le> binade x"
  then have "binade x + 1 \<le> - 126" by simp
  then have "(2::real) powi (binade x + 1) \<le> 2 powi (- 126)"
    by (rule power_int_increasing) simp
  moreover have "x \<noteq> 0" using assms zero_less_power_int [of "2::real" "- 126"] by auto
  then have "\<bar>x\<bar> < 2 powi (binade x + 1)" by (rule binade_upper)
  ultimately show False using assms by linarith
qed

lemma f32r_normal:
  assumes "2 powi (- 126) \<le> \<bar>x\<bar>"
  shows "f32r x = f32 x"
proof -
  have "max (binade x) (- 126) = binade x" using binade_normal [OF assms] by simp
  then show ?thesis by (simp add: f32r_def f32_def fl_def)
qed

lemma to_f32_zero: "to_f32 0 = Fin 0"
  by (simp add: to_f32_def f32r_def)

lemma to_f32_normal:
  assumes "2 powi (- 126) \<le> \<bar>x\<bar>" and "\<bar>f32 x\<bar> < 2 ^ 128"
  shows "to_f32 x = Fin (f32 x)"
  using assms(2) by (simp add: to_f32_def f32r_normal [OF assms(1)])

lemma to_f32_of_nat:
  assumes "n < 16777216"
  shows "to_f32 (real n) = Fin (real n)"
proof (cases "n = 0")
  case True
  then show ?thesis by (simp add: to_f32_zero)
next
  case False
  have f: "f32 (real n) = real n" using assms by (rule f32_of_nat)
  have "(1::real) \<le> real n" using False by simp
  moreover have "(2::real) powi (- 126) \<le> 1" by (simp add: power_int_minus_divide)
  ultimately have "2 powi (- 126) \<le> \<bar>real n\<bar>" by simp
  moreover have "\<bar>f32 (real n)\<bar> < 2 ^ 128" using assms by (simp add: f)
  ultimately show ?thesis using f by (simp add: to_f32_normal)
qed

lemma to_f32_overflow:
  assumes "2 ^ 128 \<le> x"
  shows "to_f32 x = PosInf"
proof -
  have x: "(2::real) powi 128 \<le> x" using assms by simp
  have "(2::real) powi (- 126) \<le> 2 powi 128" by (rule power_int_increasing) simp_all
  then have n: "2 powi (- 126) \<le> \<bar>x\<bar>" using x by linarith
  have "2 powi 128 \<le> fl 24 x" using x by (rule fl_ge_pow2) simp
  then have "2 ^ 128 \<le> \<bar>f32r x\<bar>" by (simp add: f32r_normal [OF n] f32_def)
  moreover have "0 < x" using assms by (smt (verit) zero_less_power)
  ultimately show ?thesis by (simp add: to_f32_def)
qed

section \<open>Normalising a byte and scaling it back\<close>

lemma f32_zero: "f32 0 = 0"
  by (simp add: f32_def fl_def)

lemma f32_one: "f32 1 = 1"
  using f32_of_nat [of 1] by simp

lemma f32_half_const: "f32 (1 / 2) = 1 / 2"
  using fl_half [of 24 1] f32_one by (simp add: f32_def)

lemma normalise_roundtrip:
  assumes "n < 256"
  shows "f32 (f32 (real n / 255) * 255) = real n"
    and "f32 (f32 (f32 (real n / 255) * (1 / 2)) * 255) = real n / 2"
    and "f32 (f32 (real n / 255) * (1 / 2)) = f32 (real n / 255) / 2"
proof -
  have chk: "rt_chk n" if "n \<noteq> 0"
    using that assms by (intro rt_chk_byte) simp_all
  have rt: "f32 (f32 (real n / 255) * 255) = real n"
  proof (cases "n = 0")
    case True
    then show ?thesis by (simp add: f32_zero)
  next
    case False
    then have "rt_chk n" "0 < n" using chk by simp_all
    then show ?thesis by (rule rt_chk_sound)
  qed
  have idem: "f32 (f32 (real n / 255)) = f32 (real n / 255)"
  proof (cases "n = 0")
    case True
    then show ?thesis by (simp add: f32_zero)
  next
    case False
    then have "rt_chk n" "0 < n" using chk by simp_all
    then show ?thesis by (rule rt_chk_sound)
  qed
  show "f32 (f32 (real n / 255) * 255) = real n" by (rule rt)
  define y where "y = f32 (real n / 255)"
  have "f32 (y * (1 / 2)) = f32 (y / 2)" by simp
  also have "\<dots> = f32 y / 2" unfolding f32_def by (rule fl_half)
  also have "\<dots> = y / 2" using idem by (simp add: y_def)
  finally have h: "f32 (y * (1 / 2)) = y / 2" .
  then show "f32 (f32 (real n / 255) * (1 / 2)) = f32 (real n / 255) / 2"
    unfolding y_def .
  have "f32 (y / 2 * 255) = f32 (y * 255 / 2)" by simp
  also have "\<dots> = f32 (y * 255) / 2" unfolding f32_def by (rule fl_half)
  also have "\<dots> = real n / 2" using rt by (simp add: y_def)
  finally show "f32 (f32 (f32 (real n / 255) * (1 / 2)) * 255) = real n / 2"
    unfolding y_def [symmetric] h .
qed

lemma normalised_bounds:
  assumes "0 < n" and "n < 256"
  shows "2 powi (- 8) \<le> f32 (real n / 255)" and "f32 (real n / 255) \<le> 1"
proof -
  have "(1::real) \<le> real n" using assms(1) by simp
  then have "(2::real) powi (- 8) \<le> real n / 255"
    by (simp add: power_int_minus_divide)
  then show "2 powi (- 8) \<le> f32 (real n / 255)"
    unfolding f32_def by (rule fl_ge_pow2) simp
  have "0 \<le> real n / 255" "real n / 255 \<le> 1" using assms(2) by simp_all
  then show "f32 (real n / 255) \<le> 1" using f32_unit by blast
qed

lemma powi_small: "(2::real) powi (- 126) \<le> 2 powi (- 9)"
  by (rule power_int_increasing) simp_all

lemma to_f32_255: "to_f32 255 = Fin 255"
  using to_f32_of_nat [of 255] by simp

lemma to_f32_half: "to_f32 (1 / 2) = Fin (1 / 2)"
proof -
  have "(2::real) powi (- 126) \<le> \<bar>1 / 2\<bar>" by (simp add: power_int_minus_divide)
  moreover have "\<bar>f32 (1 / 2)\<bar> < 2 ^ 128" by (simp add: f32_half_const)
  ultimately show ?thesis by (simp add: to_f32_normal f32_half_const)
qed

lemma byte_bound:
  fixes c :: "8 word"
  shows "unat c < 256"
  using unsigned_less [of c, where ?'a = nat] by simp

text \<open>The three products of the filters and of the denormalisation, on a normalised byte.\<close>

lemma normalised_ops:
  assumes "n < 256"
  shows "to_f32 (real n / 255) = Fin (f32 (real n / 255))"
    and "to_f32 (f32 (real n / 255) * 255) = Fin (real n)"
    and "to_f32 (f32 (real n / 255) * (1 / 2)) = Fin (f32 (real n / 255) / 2)"
    and "to_f32 (f32 (real n / 255) / 2 * 255) = Fin (real n / 2)"
proof -
  define y where "y = f32 (real n / 255)"
  have rt: "f32 (y * 255) = real n"
    using normalise_roundtrip(1) [OF assms] unfolding y_def [symmetric] .
  have hf: "f32 (y * (1 / 2)) = y / 2"
    using normalise_roundtrip(3) [OF assms] unfolding y_def [symmetric] .
  have "f32 (f32 (y * (1 / 2)) * 255) = real n / 2"
    using normalise_roundtrip(2) [OF assms] unfolding y_def [symmetric] .
  then have rh: "f32 (y / 2 * 255) = real n / 2" by (simp only: hf)
  have "to_f32 (real n / 255) = Fin (f32 (real n / 255)) \<and>
      to_f32 (f32 (real n / 255) * 255) = Fin (real n) \<and>
      to_f32 (f32 (real n / 255) * (1 / 2)) = Fin (f32 (real n / 255) / 2) \<and>
      to_f32 (f32 (real n / 255) / 2 * 255) = Fin (real n / 2)"
  proof (cases "n = 0")
    case True
    then show ?thesis by (simp add: f32_zero to_f32_zero)
  next
    case False
    then have n: "0 < n" by simp
    have lo: "2 powi (- 8) \<le> y" and hi: "y \<le> 1"
      using normalised_bounds [OF n assms] unfolding y_def by simp_all
    have p8: "(2::real) powi (- 8) = 1 / 256" by (simp add: power_int_minus_divide)
    have p126: "(2::real) powi (- 126) \<le> 1 / 512"
      using powi_small by (simp add: power_int_minus_divide)
    have y0: "1 / 256 \<le> y" using lo p8 by simp
    have x0: "1 / 256 \<le> real n / 255" using n by simp
    have "2 powi (- 126) \<le> \<bar>real n / 255\<bar>" using x0 p126 by linarith
    moreover have "\<bar>f32 (real n / 255)\<bar> < 2 ^ 128" using y0 hi unfolding y_def by simp
    ultimately have a: "to_f32 (real n / 255) = Fin (f32 (real n / 255))"
      by (rule to_f32_normal)
    have "2 powi (- 126) \<le> \<bar>y * 255\<bar>" using y0 p126 by simp
    moreover have "\<bar>f32 (y * 255)\<bar> < 2 ^ 128" unfolding rt using assms by simp
    ultimately have "to_f32 (y * 255) = Fin (f32 (y * 255))" by (rule to_f32_normal)
    then have b: "to_f32 (f32 (real n / 255) * 255) = Fin (real n)"
      unfolding y_def [symmetric] rt .
    have "2 powi (- 126) \<le> \<bar>y * (1 / 2)\<bar>" using y0 p126 by simp
    moreover have "\<bar>f32 (y * (1 / 2))\<bar> < 2 ^ 128" unfolding hf using y0 hi by simp
    ultimately have "to_f32 (y * (1 / 2)) = Fin (f32 (y * (1 / 2)))" by (rule to_f32_normal)
    then have c: "to_f32 (f32 (real n / 255) * (1 / 2)) = Fin (f32 (real n / 255) / 2)"
      unfolding y_def [symmetric] hf .
    have "2 powi (- 126) \<le> \<bar>y / 2 * 255\<bar>" using y0 p126 by simp
    moreover have "\<bar>f32 (y / 2 * 255)\<bar> < 2 ^ 128" unfolding rh using assms by simp
    ultimately have "to_f32 (y / 2 * 255) = Fin (f32 (y / 2 * 255))" by (rule to_f32_normal)
    then have d: "to_f32 (f32 (real n / 255) / 2 * 255) = Fin (real n / 2)"
      unfolding y_def [symmetric] rh .
    show ?thesis by (intro conjI a b c d)
  qed
  then show "to_f32 (real n / 255) = Fin (f32 (real n / 255))"
    and "to_f32 (f32 (real n / 255) * 255) = Fin (real n)"
    and "to_f32 (f32 (real n / 255) * (1 / 2)) = Fin (f32 (real n / 255) / 2)"
    and "to_f32 (f32 (real n / 255) / 2 * 255) = Fin (real n / 2)"
    by blast+
qed

lemma astype_u8_of_nat: "astype_u8 (Fin (real n)) = of_nat n"
  by (simp add: astype_u8_def trunc_int_def)

lemma astype_u8_half: "astype_u8 (Fin (real (unat c) / 2)) = c div 2"
proof -
  define n where "n = unat c"
  have "\<lfloor>real n / real 2\<rfloor> = int (n div 2)" by (rule floor_divide_of_nat_eq)
  then have "trunc_int (real n / 2) = int (n div 2)" by (simp add: trunc_int_def)
  then have "astype_u8 (Fin (real n / 2)) = of_nat (n div 2)" by (simp add: astype_u8_def)
  moreover have u: "unat (c div 2) = n div 2" by (simp add: unat_div n_def)
  have "(of_nat (n div 2) :: 8 word) = of_nat (unat (c div 2))" by (simp only: u)
  then have "(of_nat (n div 2) :: 8 word) = c div 2" by simp
  ultimately show ?thesis unfolding n_def by simp
qed

lemma normalise_byte: "np_div (astype_f32 c) 255 = Fin (f32 (real (unat c) / 255))"
proof -
  define n where "n = unat c"
  have n: "n < 256" unfolding n_def by (rule byte_bound)
  have "f32_div (Fin (real n)) (Fin 255) = to_f32 (real n / 255)"
    by (simp add: f32_div_def)
  also have "\<dots> = Fin (f32 (real n / 255))" using n by (rule normalised_ops)
  finally show ?thesis
    unfolding np_div_def astype_f32_def to_f32_255 n_def .
qed

lemma byte_roundtrip: "astype_u8 (np_mul (np_div (astype_f32 c) 255) 255) = c"
proof -
  define n where "n = unat c"
  have n: "n < 256" unfolding n_def by (rule byte_bound)
  have "np_mul (Fin (f32 (real n / 255))) 255 = to_f32 (f32 (real n / 255) * 255)"
    by (simp add: np_mul_def to_f32_255 f32_mul_def)
  also have "\<dots> = Fin (real n)" using n by (rule normalised_ops)
  finally have "astype_u8 (np_mul (np_div (astype_f32 c) 255) 255) = of_nat n"
    unfolding normalise_byte n_def by (simp only: astype_u8_of_nat)
  then show ?thesis unfolding n_def by simp
qed

lemma byte_half: "astype_u8 (np_mul (np_mul (np_div (astype_f32 c) 255) (1 / 2)) 255) = c div 2"
proof -
  define n where "n = unat c"
  have n: "n < 256" unfolding n_def by (rule byte_bound)
  have "np_mul (Fin (f32 (real n / 255))) (1 / 2) = to_f32 (f32 (real n / 255) * (1 / 2))"
    by (simp only: np_mul_def to_f32_half f32_mul_def prod.case f32v.case)
  also have "\<dots> = Fin (f32 (real n / 255) / 2)" using n by (rule normalised_ops)
  finally have h: "np_mul (Fin (f32 (real n / 255))) (1 / 2) = Fin (f32 (real n / 255) / 2)" .
  have "np_mul (Fin (f32 (real n / 255) / 2)) 255 = to_f32 (f32 (real n / 255) / 2 * 255)"
    by (simp only: np_mul_def to_f32_255 f32_mul_def prod.case f32v.case)
  also have "\<dots> = Fin (real n / 2)" using n by (rule normalised_ops)
  finally show ?thesis
    unfolding normalise_byte n_def [symmetric] h unfolding n_def
    by (simp only: astype_u8_half)
qed

lemma to_uint8_to_float: "to_uint8 (to_float img) = img"
proof -
  have px: "\<And>p. map_px (\<lambda>v. astype_u8 (np_mul v 255)) (map_px (\<lambda>c. np_div (astype_f32 c) 255) p) = p"
    by (simp add: map_px_def byte_roundtrip split: prod.split)
  show ?thesis
    unfolding to_uint8_def to_float_def map_img_def
    by (simp add: o_def px)
qed

section \<open>The identity configuration\<close>

lemma tonal_identity: "tonal_adjust 0 1 0 x = Inr x"
  by (simp add: tonal_adjust_def brightness_stage_def contrast_stage_def exposure_stage_def
      gamma_stage_def)

lemma saturation_hue_identity: "saturation_hue_stage L 1 0 x = x"
  by (simp add: saturation_hue_stage_def)

lemma f64_zero: "f64 0 = 0"
  by (simp add: f64_def fl_def)

lemma summary_unchanged:
  assumes "dict_get adj ''brightness'' = 0" and "dict_get adj ''hue'' = 0"
    and "dict_get adj ''exposure'' = 0"
  shows "generate_explainable_summary om om adj = fallback_clause"
proof -
  have "fired_clauses om om adj = []"
    using assms
    by (simp add: fired_clauses_def sharpness_clause_def contrast_clause_def
        saturation_clause_def brightness_clause_def hue_clause_def exposure_clause_def
        sharpness_change_def contrast_change_def saturation_change_def f64_zero)
  then show ?thesis
    by (simp add: generate_explainable_summary_def explanations_fired)
qed

lemma identity_run:
  "process_image L (Some img) identity_config =
     Inr \<lparr> returned = fallback_clause, written = Some img \<rparr>"
proof -
  have a: "auto_adjust L img om identity_config = (0, 1, 1)" for om
    by (simp add: auto_adjust_def identity_config_def)
  have c: "hue identity_config = 0" "exposure identity_config = 0"
    "accessibility_filter identity_config = None"
    by (simp_all add: identity_config_def)
  have s: "generate_explainable_summary om om
      [''brightness'' \<mapsto> 0, ''contrast'' \<mapsto> 1, ''saturation'' \<mapsto> 1, ''hue'' \<mapsto> 0,
       ''exposure'' \<mapsto> 0] = fallback_clause" for om
    by (rule summary_unchanged) (simp_all add: dict_get_def)
  show ?thesis
    unfolding process_image_def option.case Let_def a prod.case c tonal_identity sum.case
      to_uint8_to_float saturation_hue_identity
    by (simp add: truthy_def s)
qed

text \<open>
  Claim C1. With brightness 0, contrast 1.0, saturation 1.0, hue 0, exposure 0, no
  accessibility filter and \<open>auto_enhance\<close> off, \<open>process_image\<close> writes an image
  equal to the decoded input, byte for byte, and returns the fallback clause alone. The
  only arithmetic on the pixels is \<open>img.astype(np.float32) / 255.0\<close> followed by
  \<open>(img_float * 255).astype(np.uint8)\<close>, which gives every byte back in
  \<^verbatim>\<open>float32\<close> arithmetic.
\<close>

theorem identity_configuration_is_noop:
  "process_image L (Some img)
     \<lparr> brightness = 0, contrast = 1, saturation = 1, hue = 0, exposure = 0,
       accessibility_filter = None, auto_enhance = False \<rparr> =
   Inr \<lparr> returned = ''Applied subtle enhancements to improve overall image quality'',
         written = Some img \<rparr>"
  using identity_run [of L img] by (simp add: identity_config_def fallback_clause_def)

section \<open>The protanopia filter\<close>

lemma protanopia_pixels:
  "apply_accessibility_filters L img (Some ''colorblind_protanopia'') =
     map (map (\<lambda>(blue, green, red). (blue, green, green div 2))) img"
proof -
  have px: "map_px (\<lambda>v. astype_u8 (np_mul v 255))
        ((\<lambda>(c0, c1, c2). (c0, c1, np_mul c1 (1 / 2)))
          (map_px (\<lambda>c. np_div (astype_f32 c) 255) p)) =
      (\<lambda>(blue, green, red). (blue, green, green div 2)) p" for p
    by (cases p) (simp add: map_px_def byte_roundtrip byte_half)
  show ?thesis
    unfolding apply_accessibility_filters_def to_uint8_def to_float_def map_img_def
    by (simp add: o_def px)
qed

text \<open>
  Claim C6. The filter \<open>colorblind_protanopia\<close> replaces the red channel of every
  pixel by half of its green channel (as a byte: the half is truncated) and leaves green
  and blue as they are; a pure red pixel becomes black.
\<close>

theorem protanopia_red_is_half_green:
  "apply_accessibility_filters L img (Some ''colorblind_protanopia'') =
     map (map (\<lambda>(blue, green, red). (blue, green, green div 2))) img \<and>
   apply_accessibility_filters L [[(0, 0, 255)]] (Some ''colorblind_protanopia'') =
     [[(0, 0, 0)]]"
  by (simp add: protanopia_pixels)

section \<open>Hue 180 against hue 0\<close>

lemma to_f32_180: "to_f32 180 = Fin 180"
  using to_f32_of_nat [of 180] by simp

lemma to_f32_one: "to_f32 1 = Fin 1"
  using to_f32_of_nat [of 1] by simp

lemma hue_wrap_180:
  assumes "n < 180"
  shows "np_mod (np_add (Fin (real n)) 180) 180 = Fin (real n)"
proof -
  have "to_f32 (real (n + 180)) = Fin (real (n + 180))" using assms by (intro to_f32_of_nat) simp
  then have a: "np_add (Fin (real n)) 180 = Fin (real n + 180)"
    by (simp add: np_add_def to_f32_180 f32_add_def)
  have "\<lfloor>(real n + 180) / 180\<rfloor> = 1" using assms by (simp add: floor_eq_iff)
  then have "trunc_int ((real n + 180) / 180) = 1" by (simp add: trunc_int_def)
  then have m: "fmod (real n + 180) 180 = real n" by (simp add: fmod_def)
  show ?thesis
    unfolding np_mod_def a to_f32_180 by (simp add: f32_mod_def m Let_def)
qed

lemma unit_scale_byte:
  assumes "n < 256"
  shows "np_clip (np_mul (Fin (real n)) 1) 0 255 = Fin (real n)"
proof -
  have "to_f32 (real n) = Fin (real n)" using assms by (intro to_f32_of_nat) simp
  then have "np_mul (Fin (real n)) 1 = Fin (real n)"
    by (simp add: np_mul_def to_f32_one f32_mul_def)
  then show ?thesis using assms by (simp add: np_clip_def)
qed

lemma astype_u8_byte: "astype_u8 (Fin (real (unat c))) = c"
  by (simp only: astype_u8_of_nat) simp

lemma saturation_hue_180:
  assumes "\<forall>p. unat (fst (cvt_bgr2hsv L p)) < 180" and "s \<noteq> 1"
  shows "saturation_hue_stage L s 180 x = saturation_hue_stage L s 0 x"
proof -
  have px: "(\<lambda>(c0, c1, c2). (np_mod (np_add c0 180) 180, c1, c2))
        ((\<lambda>(c0, c1, c2). (c0, np_clip (np_mul c1 s) 0 255, c2))
          (map_px astype_f32 (cvt_bgr2hsv L p))) =
      (\<lambda>(c0, c1, c2). (c0, np_clip (np_mul c1 s) 0 255, c2))
          (map_px astype_f32 (cvt_bgr2hsv L p))" for p
  proof -
    obtain h sa v where hsv: "cvt_bgr2hsv L p = (h, sa, v)" by (cases "cvt_bgr2hsv L p")
    have "unat h < 180" using assms(1) [rule_format, of p] by (simp add: hsv)
    then have "np_mod (np_add (Fin (real (unat h))) 180) 180 = Fin (real (unat h))" by (rule hue_wrap_180)
    then show ?thesis by (simp add: hsv map_px_def astype_f32_def del: of_nat_unat)
  qed
  have "saturation_hue_stage L s 180 x =
      map (map (\<lambda>p. cvt_hsv2bgr L (map_px astype_u8
        ((\<lambda>(c0, c1, c2). (np_mod (np_add c0 180) 180, c1, c2))
          ((\<lambda>(c0, c1, c2). (c0, np_clip (np_mul c1 s) 0 255, c2))
            (map_px astype_f32 (cvt_bgr2hsv L p))))))) x"
    using assms(2) unfolding saturation_hue_stage_def Let_def map_img_def
    by (simp only: map_map o_def) simp
  also have "\<dots> =
      map (map (\<lambda>p. cvt_hsv2bgr L (map_px astype_u8
          ((\<lambda>(c0, c1, c2). (c0, np_clip (np_mul c1 s) 0 255, c2))
            (map_px astype_f32 (cvt_bgr2hsv L p)))))) x"
    by (simp only: px)
  also have "\<dots> = saturation_hue_stage L s 0 x"
    using assms(2) unfolding saturation_hue_stage_def Let_def map_img_def
    by (simp only: map_map o_def) simp
  finally show ?thesis .
qed

lemma saturation_hue_roundtrip:
  assumes "\<forall>p. unat (fst (cvt_bgr2hsv L p)) < 180"
  shows "saturation_hue_stage L 1 180 x = map (map (\<lambda>p. cvt_hsv2bgr L (cvt_bgr2hsv L p))) x"
proof -
  have px: "map_px astype_u8
        ((\<lambda>(c0, c1, c2). (np_mod (np_add c0 180) 180, c1, c2))
          ((\<lambda>(c0, c1, c2). (c0, np_clip (np_mul c1 1) 0 255, c2))
            (map_px astype_f32 (cvt_bgr2hsv L p)))) = cvt_bgr2hsv L p" for p
  proof -
    obtain h sa v where hsv: "cvt_bgr2hsv L p = (h, sa, v)" by (cases "cvt_bgr2hsv L p")
    have "unat h < 180" using assms [rule_format, of p] by (simp add: hsv)
    then have h: "np_mod (np_add (Fin (real (unat h))) 180) 180 = Fin (real (unat h))" by (rule hue_wrap_180)
    have sa: "np_clip (np_mul (Fin (real (unat sa))) 1) 0 255 = Fin (real (unat sa))"
      by (rule unit_scale_byte) (rule byte_bound)
    show ?thesis
      by (simp add: hsv map_px_def astype_f32_def h sa astype_u8_byte del: of_nat_unat)
  qed
  have "saturation_hue_stage L 1 180 x =
      map (map (\<lambda>p. cvt_hsv2bgr L (map_px astype_u8
        ((\<lambda>(c0, c1, c2). (np_mod (np_add c0 180) 180, c1, c2))
          ((\<lambda>(c0, c1, c2). (c0, np_clip (np_mul c1 1) 0 255, c2))
            (map_px astype_f32 (cvt_bgr2hsv L p))))))) x"
    unfolding saturation_hue_stage_def Let_def map_img_def
    by (simp only: map_map o_def) simp
  then show ?thesis by (simp only: px)
qed

lemma output_image_process:
  assumes "auto_adjust L img (calculate_perceptual_metrics L img) cfg = (b, c, s)"
  shows "output_image (process_image L (Some img) cfg) =
     (case tonal_adjust b c (exposure cfg) (to_float img) of
        Inl err \<Rightarrow> None
      | Inr y \<Rightarrow>
          Some (if truthy (accessibility_filter cfg)
                then apply_accessibility_filters L
                       (saturation_hue_stage L s (hue cfg) (to_uint8 y)) (accessibility_filter cfg)
                else saturation_hue_stage L s (hue cfg) (to_uint8 y)))"
  using assms
  by (simp add: process_image_def output_image_def Let_def split: sum.split)

lemma auto_adjust_hue: "auto_adjust L img om (cfg\<lparr>hue := h\<rparr>) = auto_adjust L img om cfg"
  by (simp add: auto_adjust_def Let_def)

text \<open>
  Claim C5, amended. OpenCV's 8-bit hue lies in \<open>[0, 180)\<close>. When the saturation in
  effect differs from 1.0, so that the saturation and hue stage runs for hue 0 as well,
  \<open>process_image\<close> with hue 180 produces the same image as with hue 0, all else
  equal: \<open>(h + 180) % 180 = h\<close> on every hue.
\<close>

theorem hue_180_same_when_saturation_adjusted:
  assumes "\<forall>p. unat (fst (cvt_bgr2hsv L p)) < 180"
    and "auto_adjust L img (calculate_perceptual_metrics L img) cfg = (b, c, s)"
    and "s \<noteq> 1"
  shows "output_image (process_image L (Some img) (cfg\<lparr>hue := 180\<rparr>)) =
         output_image (process_image L (Some img) (cfg\<lparr>hue := 0\<rparr>))"
proof -
  have a: "auto_adjust L img (calculate_perceptual_metrics L img) (cfg\<lparr>hue := h\<rparr>) = (b, c, s)"
    for h by (simp only: auto_adjust_hue assms(2))
  have st: "saturation_hue_stage L s 180 x = saturation_hue_stage L s 0 x" for x
    using assms(1,3) by (rule saturation_hue_180)
  show ?thesis
    unfolding output_image_process [OF a] by (simp add: st split: sum.split)
qed

theorem hue_180_same_when_saturation_adjusted_witness:
  "(\<forall>p. unat (fst (cvt_bgr2hsv plain_lib p)) < 180) \<and>
   auto_adjust plain_lib [[(10, 20, 30)]] (calculate_perceptual_metrics plain_lib [[(10, 20, 30)]])
     (identity_config\<lparr>saturation := 11 / 10\<rparr>) = (0, 1, 11 / 10) \<and>
   output_image (process_image plain_lib (Some [[(10, 20, 30)]])
     (identity_config\<lparr>saturation := 11 / 10, hue := 180\<rparr>)) =
   output_image (process_image plain_lib (Some [[(10, 20, 30)]])
     (identity_config\<lparr>saturation := 11 / 10, hue := 0\<rparr>))"
proof -
  have r: "\<forall>p. unat (fst (cvt_bgr2hsv plain_lib p)) < 180"
    by (simp add: plain_lib_def split: prod.split)
  have a: "auto_adjust plain_lib [[(10, 20, 30)]]
      (calculate_perceptual_metrics plain_lib [[(10, 20, 30)]])
      (identity_config\<lparr>saturation := 11 / 10\<rparr>) = (0, 1, 11 / 10)"
    by (simp add: auto_adjust_def identity_config_def)
  have "(11 / 10 :: real) \<noteq> 1" by simp
  from hue_180_same_when_saturation_adjusted [OF r a this] r a show ?thesis by simp
qed

lemma hue_channel_card: "card {h :: 8 word. unat h < 180} \<le> 180"
proof -
  have "{h :: 8 word. unat h < 180} \<subseteq> of_nat ` {..<180::nat}"
  proof
    fix h :: "8 word"
    assume "h \<in> {h. unat h < 180}"
    then have "unat h \<in> {..<180}" by simp
    moreover have "h = of_nat (unat h)" by simp
    ultimately show "h \<in> of_nat ` {..<180::nat}" by (rule rev_image_eqI)
  qed
  then have "card {h :: 8 word. unat h < 180} \<le> card ((of_nat :: nat \<Rightarrow> 8 word) ` {..<180::nat})"
    by (intro card_mono) simp_all
  also have "\<dots> \<le> card {..<180::nat}" by (rule card_image_le) simp
  finally show ?thesis by simp
qed

lemma hsv_not_injective:
  assumes "\<forall>p. unat (fst (cvt_bgr2hsv L p)) < 180"
  shows "\<not> (\<forall>p. cvt_hsv2bgr L (cvt_bgr2hsv L p) = p)"
proof
  assume rt: "\<forall>p. cvt_hsv2bgr L (cvt_bgr2hsv L p) = p"
  then have inj: "inj (cvt_bgr2hsv L)" by (metis injI)
  let ?R = "{h :: 8 word. unat h < 180} \<times> (UNIV :: (8 word \<times> 8 word) set)"
  have sub: "range (cvt_bgr2hsv L) \<subseteq> ?R"
  proof (rule image_subsetI)
    fix p
    show "cvt_bgr2hsv L p \<in> ?R"
      using assms [rule_format, of p] by (cases "cvt_bgr2hsv L p") simp
  qed
  have "card (UNIV :: pixel set) = card (range (cvt_bgr2hsv L))"
    using inj by (simp add: card_image)
  also have "\<dots> \<le> card ?R" using sub by (intro card_mono) simp_all
  also have "\<dots> = card {h :: 8 word. unat h < 180} * card (UNIV :: (8 word \<times> 8 word) set)"
    by (rule card_cartesian_product)
  also have "\<dots> \<le> 180 * card (UNIV :: (8 word \<times> 8 word) set)"
    using hue_channel_card by (rule mult_le_mono1)
  finally show False by (simp add: card_word)
qed

text \<open>
  Claim C5 as stated fails. With saturation 1.0 the stage is skipped for hue 0 but runs
  for hue 180, where it converts every pixel to 8-bit HSV and back. There are fewer
  8-bit HSV triples with hue below 180 than BGR triples, so no conversion gives every
  pixel back: for no library with hue in \<open>[0, 180)\<close> do the two runs agree on all
  images and configurations.
\<close>

theorem hue_180_differs_without_saturation:
  "\<not> (\<exists>L. (\<forall>p. unat (fst (cvt_bgr2hsv L p)) < 180) \<and>
          (\<forall>img cfg. output_image (process_image L (Some img) (cfg\<lparr>hue := 180\<rparr>)) =
                     output_image (process_image L (Some img) (cfg\<lparr>hue := 0\<rparr>))))"
proof
  assume "\<exists>L. (\<forall>p. unat (fst (cvt_bgr2hsv L p)) < 180) \<and>
          (\<forall>img cfg. output_image (process_image L (Some img) (cfg\<lparr>hue := 180\<rparr>)) =
                     output_image (process_image L (Some img) (cfg\<lparr>hue := 0\<rparr>)))"
  then obtain L where r: "\<forall>p. unat (fst (cvt_bgr2hsv L p)) < 180"
    and eq: "\<And>img cfg. output_image (process_image L (Some img) (cfg\<lparr>hue := 180\<rparr>)) =
                     output_image (process_image L (Some img) (cfg\<lparr>hue := 0\<rparr>))"
    by blast
  have "cvt_hsv2bgr L (cvt_bgr2hsv L p) = p" for p
  proof -
    have a: "auto_adjust L [[p]] (calculate_perceptual_metrics L [[p]])
        (identity_config\<lparr>hue := h\<rparr>) = (0, 1, 1)" for h
      by (simp add: auto_adjust_def identity_config_def)
    have c: "exposure (identity_config\<lparr>hue := h\<rparr>) = 0"
      "accessibility_filter (identity_config\<lparr>hue := h\<rparr>) = None"
      "hue (identity_config\<lparr>hue := h\<rparr>) = h" for h
      by (simp_all add: identity_config_def)
    have "output_image (process_image L (Some [[p]]) (identity_config\<lparr>hue := 180\<rparr>)) =
        Some [[cvt_hsv2bgr L (cvt_bgr2hsv L p)]]"
      by (simp add: output_image_process [OF a] c tonal_identity to_uint8_to_float
          saturation_hue_roundtrip [OF r] truthy_def)
    moreover have "output_image (process_image L (Some [[p]]) (identity_config\<lparr>hue := 0\<rparr>)) =
        Some [[p]]"
      by (simp add: output_image_process [OF a] c tonal_identity to_uint8_to_float
          saturation_hue_identity truthy_def)
    ultimately show ?thesis using eq [of "[[p]]" identity_config] by simp
  qed
  then show False using hsv_not_injective [OF r] by blast
qed

section \<open>Range of the tonal stages\<close>

lemma channels_map_img:
  assumes "v \<in> channels (map_img f img)"
  shows "\<exists>u \<in> channels img. v = f u"
proof -
  from assms obtain row c0 c1 c2 where row: "row \<in> set (map (map (map_px f)) img)"
    and px: "(c0, c1, c2) \<in> set row" and v: "v = c0 \<or> v = c1 \<or> v = c2"
    unfolding channels_def map_img_def by blast
  from row obtain row' where row': "row' \<in> set img" and r: "row = map (map_px f) row'"
    by auto
  from px r obtain p where p: "p \<in> set row'" and c: "(c0, c1, c2) = map_px f p"
    by auto
  obtain d0 d1 d2 where d: "p = (d0, d1, d2)" by (cases p)
  from c d have "c0 = f d0" "c1 = f d1" "c2 = f d2" by (simp_all add: map_px_def)
  moreover have "d0 \<in> channels img" "d1 \<in> channels img" "d2 \<in> channels img"
    using row' p d unfolding channels_def by blast+
  ultimately show ?thesis using v by blast
qed

lemma f32r_nonneg:
  assumes "0 \<le> x"
  shows "0 \<le> f32r x"
proof (cases "x = 0")
  case True
  then show ?thesis by (simp add: f32r_def)
next
  case False
  define u :: real where "u = 2 powi (max (binade x) (- 126) - 23)"
  have u: "0 < u" by (simp add: u_def)
  have "of_int 0 \<le> x / u" using assms u by simp
  then have "0 \<le> round_half_even (x / u)" by (rule round_half_even_ge)
  then show ?thesis using False u by (simp add: f32r_def Let_def u_def [symmetric])
qed

lemma f32r_le_int:
  assumes "0 \<le> x" and "x \<le> of_int c" and "c < 2 ^ 24"
  shows "f32r x \<le> of_int c"
proof (cases "x = 0")
  case True
  then show ?thesis using assms by (simp add: f32r_def)
next
  case False
  define e where "e = max (binade x) (- 126)"
  define k where "k = nat (int 24 - 1 - e)"
  define u :: real where "u = 2 powi (e - (int 24 - 1))"
  have "(of_int c :: real) < 2 ^ 24" using assms(3)
    by (metis of_int_less_iff of_int_numeral of_int_power)
  then have "\<bar>x\<bar> < 2 ^ 24" using assms(1,2) by linarith
  then have "binade x < int 24" by (rule binade_less_prec [OF False])
  then have "e < int 24" by (simp add: e_def)
  then have u: "u = 1 / 2 ^ k" unfolding u_def k_def by (rule ulp_small)
  have "x / u \<le> of_int (c * 2 ^ k)" using assms(2) by (simp add: u)
  then have "round_half_even (x / u) \<le> c * 2 ^ k" by (rule round_half_even_le)
  then have "(of_int (round_half_even (x / u)) :: real) \<le> of_int (c * 2 ^ k)"
    by (simp only: of_int_le_iff)
  then have "of_int (round_half_even (x / u)) * u \<le> of_int c"
    by (simp add: u field_simps)
  moreover have "f32r x = of_int (round_half_even (x / u)) * u"
    using False by (simp add: f32r_def Let_def u_def e_def)
  ultimately show ?thesis by simp
qed

lemma to_f32_range:
  assumes "0 \<le> x" and "x \<le> of_int c" and "c < 2 ^ 24"
  shows "\<exists>r. to_f32 x = Fin r \<and> 0 \<le> r \<and> r \<le> of_int c"
proof -
  have lo: "0 \<le> f32r x" using assms(1) by (rule f32r_nonneg)
  have hi: "f32r x \<le> of_int c" using assms by (rule f32r_le_int)
  have "(of_int c :: real) < 2 ^ 24" using assms(3)
    by (metis of_int_less_iff of_int_numeral of_int_power)
  moreover have "(2::real) ^ 24 < 2 ^ 128" by simp
  ultimately have "\<bar>f32r x\<bar> < 2 ^ 128" using lo hi by linarith
  then have "to_f32 x = Fin (f32r x)" by (simp add: to_f32_def)
  with lo hi show ?thesis by blast
qed

lemma to_f32_nonneg:
  assumes "0 \<le> g"
  shows "to_f32 g = PosInf \<or> (\<exists>y. to_f32 g = Fin y \<and> 0 \<le> y)"
proof (cases "2 ^ 128 \<le> \<bar>f32r g\<bar>")
  case True
  then have "g \<noteq> 0" by (auto simp: f32r_def)
  then have "0 < g" using assms by simp
  then show ?thesis using True by (simp add: to_f32_def)
next
  case False
  then have "to_f32 g = Fin (f32r g)" by (simp add: to_f32_def)
  then show ?thesis using f32r_nonneg [OF assms] by blast
qed

lemma to_f32_not_nan: "to_f32 x \<noteq> NaN"
  by (simp add: to_f32_def Let_def)

lemma np_clip_unit: "x \<noteq> NaN \<Longrightarrow> unit_f32 (np_clip x 0 1)"
  by (cases x) (simp_all add: np_clip_def unit_f32_def)

lemma np_add_not_nan: "unit_f32 v \<Longrightarrow> np_add v b \<noteq> NaN"
  by (cases "to_f32 b") (auto simp: unit_f32_def np_add_def f32_add_def to_f32_not_nan)

lemma np_mul_not_nan: "unit_f32 v \<Longrightarrow> f32_finite s \<Longrightarrow> np_mul v s \<noteq> NaN"
  by (auto simp: unit_f32_def f32_finite_def np_mul_def f32_mul_def to_f32_not_nan)

lemma np_power_unit:
  assumes "unit_f32 v" and "0 \<le> g"
  shows "unit_f32 (np_power v g)"
proof -
  from assms(1) obtain x where v: "v = Fin x" and x: "0 \<le> x" "x \<le> 1"
    unfolding unit_f32_def by blast
  consider "to_f32 g = PosInf" | y where "to_f32 g = Fin y" "0 \<le> y"
    using to_f32_nonneg [OF assms(2)] by blast
  then show ?thesis
  proof cases
    case 1
    then show ?thesis using x
      by (simp add: np_power_def f32_pow_def v unit_f32_def)
  next
    case 2
    show ?thesis
    proof (cases "y = 0 \<or> x = 1 \<or> x = 0")
      case True
      then show ?thesis using 2 x
        by (auto simp: np_power_def f32_pow_def v unit_f32_def)
    next
      case False
      then have x0: "0 < x" and y0: "0 < y" using x 2 by simp_all
      have "x powr y \<le> 1 powr y" using x y0 by (intro powr_mono2) simp_all
      then have "0 \<le> x powr y" "x powr y \<le> of_int 1" by simp_all
      then have "\<exists>r. to_f32 (x powr y) = Fin r \<and> 0 \<le> r \<and> r \<le> of_int 1"
        by (rule to_f32_range) simp
      then show ?thesis using False x0 2
        by (simp add: np_power_def f32_pow_def v unit_f32_def)
    qed
  qed
qed

lemma to_float_unit:
  assumes "v \<in> channels (to_float img)"
  shows "unit_f32 v"
proof -
  from assms obtain c where v: "v = np_div (astype_f32 c) 255"
    unfolding to_float_def by (blast dest: channels_map_img)
  define n where "n = unat c"
  have "n < 256" unfolding n_def by (rule byte_bound)
  then have "0 \<le> real n / 255" "real n / 255 \<le> 1" by simp_all
  then have "0 \<le> f32 (real n / 255) \<and> f32 (real n / 255) \<le> 1" by (rule f32_unit)
  then show ?thesis
    unfolding v normalise_byte n_def [symmetric] unit_f32_def by simp
qed

lemma brightness_stage_unit:
  assumes "\<forall>v \<in> channels x. unit_f32 v"
  shows "\<forall>v \<in> channels (brightness_stage b x). unit_f32 v"
proof -
  have step: "unit_f32 (np_clip (np_add u b) 0 1)" if "unit_f32 u" for u
    using that by (intro np_clip_unit np_add_not_nan)
  show ?thesis
    using assms unfolding brightness_stage_def
    by (auto dest!: channels_map_img simp: step)
qed

lemma contrast_stage_unit:
  assumes "\<forall>v \<in> channels x. unit_f32 v" and "f32_finite c"
  shows "\<forall>v \<in> channels (contrast_stage c x). unit_f32 v"
proof -
  have step: "unit_f32 (np_clip (np_mul u c) 0 1)" if "unit_f32 u" for u
    using that assms(2) by (intro np_clip_unit np_mul_not_nan)
  show ?thesis
    using assms(1) unfolding contrast_stage_def
    by (auto dest!: channels_map_img simp: step)
qed

lemma exposure_stage_unit:
  assumes "\<forall>v \<in> channels x. unit_f32 v" and "exposure_stage e x = Inr y"
    and "\<forall>factor. py_pow2 e = Inr factor \<longrightarrow> f32_finite factor"
  shows "\<forall>v \<in> channels y. unit_f32 v"
proof -
  have step: "unit_f32 (np_clip (np_mul u factor) 0 1)"
    if "unit_f32 u" and "py_pow2 e = Inr factor" for u factor
    using that assms(3) by (intro np_clip_unit np_mul_not_nan) blast+
  show ?thesis
    using assms(1,2) unfolding exposure_stage_def
    by (auto dest!: channels_map_img simp: step split: if_splits sum.splits)
qed

lemma gamma_nonneg: "gamma_of c = Inr g \<Longrightarrow> 0 \<le> g"
  by (auto simp: gamma_of_total f64_def intro: fl_nonneg split: if_splits)

lemma gamma_stage_unit:
  assumes "\<forall>v \<in> channels x. unit_f32 v" and "gamma_stage c x = Inr y"
  shows "\<forall>v \<in> channels y. unit_f32 v"
proof (cases "c = 1")
  case True
  then show ?thesis using assms by (simp add: gamma_stage_def)
next
  case False
  obtain g where g: "gamma_of c = Inr g" by (simp add: gamma_of_total)
  then have g0: "0 \<le> g" by (rule gamma_nonneg)
  have y: "y = map_img (\<lambda>v. np_power v g) x"
    using assms(2) False g by (simp add: gamma_stage_def)
  show ?thesis
  proof
    fix v assume "v \<in> channels y"
    then obtain u where u: "u \<in> channels x" and v: "v = np_power u g"
      unfolding y by (blast dest: channels_map_img)
    from u assms(1) have "unit_f32 u" by auto
    then show "unit_f32 v" unfolding v using g0 by (rule np_power_unit)
  qed
qed

lemma denormalise_no_wrap:
  assumes "unit_f32 v"
  shows "\<exists>r. np_mul v 255 = Fin r \<and> 0 \<le> r \<and> r \<le> 255 \<and>
           uint (astype_u8 (np_mul v 255)) = trunc_int r"
proof -
  from assms obtain x where v: "v = Fin x" and x: "0 \<le> x" "x \<le> 1"
    unfolding unit_f32_def by blast
  have "0 \<le> x * 255" "x * 255 \<le> of_int 255" using x by simp_all
  then have "\<exists>r. to_f32 (x * 255) = Fin r \<and> 0 \<le> r \<and> r \<le> of_int 255"
    by (rule to_f32_range) simp
  then obtain r where r: "to_f32 (x * 255) = Fin r" "0 \<le> r" "r \<le> 255" by auto
  have m: "np_mul v 255 = Fin r"
    by (simp add: v np_mul_def to_f32_255 f32_mul_def r)
  have t: "0 \<le> trunc_int r" "trunc_int r \<le> 255"
    using r by (simp_all add: trunc_int_def floor_le_iff)
  then have "uint (astype_u8 (Fin r)) = trunc_int r"
    by (simp add: astype_u8_def uint_word_of_int_eq take_bit_eq_mod)
  then show ?thesis using m r by simp
qed

text \<open>The range the tonal stages keep when the contrast and the exposure factor are
  finite \<^verbatim>\<open>float32\<close> numbers.\<close>

lemma tonal_range_when_finite:
  assumes "tonal_adjust b c e (to_float img) = Inr out"
    and "f32_finite c"
    and "\<forall>factor. py_pow2 e = Inr factor \<longrightarrow> f32_finite factor"
  shows "\<forall>v \<in> channels out. unit_f32 v \<and>
           (\<exists>r. np_mul v 255 = Fin r \<and> 0 \<le> r \<and> r \<le> 255 \<and>
                uint (astype_u8 (np_mul v 255)) = trunc_int r)"
proof -
  from assms(1) obtain z
    where z: "exposure_stage e (contrast_stage c (brightness_stage b (to_float img))) = Inr z"
    and y: "gamma_stage c z = Inr out"
    by (auto simp: tonal_adjust_def split: sum.splits)
  have "\<forall>v \<in> channels (to_float img). unit_f32 v" using to_float_unit by blast
  then have "\<forall>v \<in> channels (brightness_stage b (to_float img)). unit_f32 v"
    by (rule brightness_stage_unit)
  then have "\<forall>v \<in> channels (contrast_stage c (brightness_stage b (to_float img))). unit_f32 v"
    using assms(2) by (rule contrast_stage_unit)
  then have "\<forall>v \<in> channels z. unit_f32 v" using z assms(3) by (rule exposure_stage_unit)
  then have "\<forall>v \<in> channels out. unit_f32 v" using y by (rule gamma_stage_unit)
  then show ?thesis using denormalise_no_wrap by blast
qed

section \<open>A product of zero and infinity\<close>

lemma exposure_factor_128: "to_f32 (f64 (2 powr 128)) = PosInf"
proof -
  have "(2::real) powr 128 = 2 powi 128" by simp
  then have "2 powi 128 \<le> fl 53 (2 powr 128)" by (intro fl_ge_pow2) simp_all
  then have "2 ^ 128 \<le> f64 (2 powr 128)" by (simp add: f64_def)
  then show ?thesis by (rule to_f32_overflow)
qed

lemma to_float_sample:
  "\<exists>g. 0 < g \<and> to_float [[(0, 20, 255)]] = [[(Fin 0, Fin g, Fin 1)]]"
proof -
  define g where "g = f32 (real 20 / 255)"
  have "2 powi (- 8) \<le> g" unfolding g_def by (rule normalised_bounds) simp_all
  moreover have "(0::real) < 2 powi (- 8)" by simp
  ultimately have g: "0 < g" by simp
  have "np_div (astype_f32 (0 :: 8 word)) 255 = Fin 0"
    unfolding normalise_byte by (simp add: f32_zero)
  moreover have "np_div (astype_f32 (20 :: 8 word)) 255 = Fin g"
    unfolding normalise_byte g_def by simp
  moreover have "np_div (astype_f32 (255 :: 8 word)) 255 = Fin 1"
    unfolding normalise_byte by (simp add: f32_one)
  ultimately have "to_float [[(0, 20, 255)]] = [[(Fin 0, Fin g, Fin 1)]]"
    by (simp add: to_float_def map_img_def map_px_def)
  with g show ?thesis by blast
qed

text \<open>
  Claim C2 says that for any brightness, contrast and exposure every channel of the float
  image lies in \<open>[0, 1]\<close> just before \<open>(img_float * 255).astype(np.uint8)\<close>. With
  \<open>exposure = 128.0\<close> the factor \<open>2 ** exposure\<close> is beyond the \<^verbatim>\<open>float32\<close>
  range and becomes an infinity; a zero channel times infinity is NaN, and \<open>np.clip\<close>
  hands NaN on. For the pixel \<open>(0, 20, 255)\<close> the float image holds NaN in the blue
  channel when it is converted to eight bits.
\<close>

theorem exposure_128_yields_nan:
  "tonal_adjust 0 1 128 (to_float [[(0, 20, 255)]]) = Inr [[(NaN, Fin 1, Fin 1)]]"
proof -
  obtain g where g: "0 < g" and t: "to_float [[(0, 20, 255)]] = [[(Fin 0, Fin g, Fin 1)]]"
    using to_float_sample by blast
  define F where "F = f64 (2 powr 128)"
  have f: "to_f32 F = PosInf" unfolding F_def by (rule exposure_factor_128)
  have p: "py_pow2 128 = Inr F" by (simp add: py_pow2_def F_def)
  have m0: "np_mul (Fin 0) F = NaN"
    by (simp add: np_mul_def f f32_mul_def)
  have my: "np_mul (Fin g) F = PosInf"
    using g by (simp add: np_mul_def f f32_mul_def signed_inf_def)
  have m1: "np_mul (Fin 1) F = PosInf"
    by (simp add: np_mul_def f f32_mul_def signed_inf_def)
  show ?thesis
    unfolding t
    by (simp add: tonal_adjust_def brightness_stage_def contrast_stage_def exposure_stage_def
        gamma_stage_def p map_img_def map_px_def m0 my m1 np_clip_def)
qed

end
